theory Spec2Isabelle
  imports
    Main
    "HOL-Library.Product_Lexorder"
    "HOL-Library.List_Lexorder"
    "HOL-Library.Char_ord"
begin

section \<open>Python values shared by the aggregators\<close>

text \<open>
  Exceptions are values: every function of the source that can raise returns
  \<open>py_error + 'a\<close>, with \<open>Inl\<close> for the exception.
\<close>

datatype py_error = ValueError | TypeError | OverflowError

text \<open>
  A naive \<open>datetime\<close> is the tuple of its fields, in the order of the constructor
  \<open>datetime(year, month, day, hour, minute, second, microsecond)\<close>. Python compares
  naive datetimes field by field in this order, which is the lexicographic order of
  the tuple. A \<open>date\<close> is \<open>(year, month, day)\<close>, compared the same way.
\<close>

type_synonym naive_datetime = "int \<times> int \<times> int \<times> int \<times> int \<times> int \<times> int"

type_synonym date = "int \<times> int \<times> int"

definition dt_year :: "naive_datetime \<Rightarrow> int" where
  "dt_year d = fst d"

definition dt_month :: "naive_datetime \<Rightarrow> int" where
  "dt_month d = fst (snd d)"

definition dt_day :: "naive_datetime \<Rightarrow> int" where
  "dt_day d = fst (snd (snd d))"

definition dt_time :: "naive_datetime \<Rightarrow> int \<times> int \<times> int \<times> int" where
  "dt_time d = snd (snd (snd d))"

subsection \<open>The proleptic Gregorian calendar of \<open>datetime\<close> and \<open>calendar\<close>\<close>

definition isleap :: "int \<Rightarrow> bool" where
  "isleap y \<longleftrightarrow> y mod 4 = 0 \<and> (y mod 100 \<noteq> 0 \<or> y mod 400 = 0)"

text \<open>\<open>calendar.monthrange(year, month)[1]\<close>: the number of days of the month.\<close>

definition days_in_month :: "int \<Rightarrow> int \<Rightarrow> int" where
  "days_in_month y m =
     (if m = 2 then (if isleap y then 29 else 28)
      else if m = 4 \<or> m = 6 \<or> m = 9 \<or> m = 11 then 30
      else 31)"

definition days_before_year :: "int \<Rightarrow> int" where
  "days_before_year y = (y - 1) * 365 + (y - 1) div 4 - (y - 1) div 100 + (y - 1) div 400"

fun days_before_month :: "int \<Rightarrow> nat \<Rightarrow> int" where
  "days_before_month y 0 = 0"
| "days_before_month y (Suc k) = days_before_month y k + days_in_month y (int (Suc k))"

text \<open>\<open>date.toordinal()\<close>: 1 for 0001-01-01.\<close>

definition toordinal :: "date \<Rightarrow> int" where
  "toordinal d =
     (case d of (y, m, dd) \<Rightarrow> days_before_year y + days_before_month y (nat (m - 1)) + dd)"

text \<open>\<open>(d1 - d2).days\<close> for two dates.\<close>

definition days_between :: "date \<Rightarrow> date \<Rightarrow> int" where
  "days_between d1 d2 = toordinal d1 - toordinal d2"

subsection \<open>Text\<close>

definition is_digit :: "char \<Rightarrow> bool" where
  "is_digit c \<longleftrightarrow> CHR ''0'' \<le> c \<and> c \<le> CHR ''9''"

definition digit_val :: "char \<Rightarrow> int" where
  "digit_val c = int (of_char c) - 48"

text \<open>\<open>int(s)\<close> on a string of decimal digits.\<close>

definition int_of_digits :: "string \<Rightarrow> int" where
  "int_of_digits s = foldl (\<lambda>acc c. 10 * acc + digit_val c) 0 s"

definition digit_char :: "nat \<Rightarrow> char" where
  "digit_char n = char_of (48 + n)"

fun str_nat :: "nat \<Rightarrow> string" where
  "str_nat n = (if n < 10 then [digit_char n] else str_nat (n div 10) @ [digit_char (n mod 10)])"

text \<open>\<open>str(n)\<close>, which is what an f-string writes for an \<open>int\<close>.\<close>

definition str_int :: "int \<Rightarrow> string" where
  "str_int i = (if i < 0 then CHR ''-'' # str_nat (nat (- i)) else str_nat (nat i))"

text \<open>\<open>str.lower()\<close> on ASCII text.\<close>

definition lower_char :: "char \<Rightarrow> char" where
  "lower_char c = (if CHR ''A'' \<le> c \<and> c \<le> CHR ''Z'' then char_of (of_char c + (32::nat)) else c)"

definition lower :: "string \<Rightarrow> string" where
  "lower s = map lower_char s"

text \<open>\<open>sep.join(parts)\<close>.\<close>

fun join :: "string \<Rightarrow> string list \<Rightarrow> string" where
  "join sep [] = []"
| "join sep [p] = p"
| "join sep (p # q # ps) = p @ sep @ join sep (q # ps)"

section \<open>Career aggregator: total experience over merged work intervals\<close>

subsection \<open>\<open>dateutil.relativedelta(dt1, dt2)\<close>\<close>

text \<open>
  The career aggregator measures an interval with \<open>relativedelta(end, start)\<close> of the
  \<open>dateutil\<close> library and reads its \<open>years\<close> and \<open>months\<close>. The library starts from the
  difference of the year and month fields, adds it to \<open>dt2\<close> (clamping the day to the
  length of the month reached), and steps the month count towards zero while the result
  overshoots \<open>dt1\<close>.
\<close>

record relativedelta =
  years :: int
  months :: int

text \<open>\<open>relativedelta._set_months\<close>: split a signed month count into years and months.\<close>

definition set_months :: "int \<Rightarrow> relativedelta" where
  "set_months m =
     (if \<bar>m\<bar> > 11
      then \<lparr>years = sgn m * (\<bar>m\<bar> div 12), months = sgn m * (\<bar>m\<bar> mod 12)\<rparr>
      else \<lparr>years = 0, months = m\<rparr>)"

text \<open>
  \<open>relativedelta.__radd__\<close> for a delta that holds years and months only: the year and
  month move, the day is clamped to the month's length, the time of day stays.
\<close>

definition radd :: "relativedelta \<Rightarrow> naive_datetime \<Rightarrow> naive_datetime" where
  "radd rd dt =
     (let y0 = dt_year dt + years rd;
          m0 = dt_month dt;
          (y, m) = (if months rd \<noteq> 0
                    then (let m1 = m0 + months rd
                          in if m1 > 12 then (y0 + 1, m1 - 12)
                             else if m1 < 1 then (y0 - 1, m1 + 12)
                             else (y0, m1))
                    else (y0, m0))
      in (y, m, min (days_in_month y m) (dt_day dt), dt_time dt))"

text \<open>
  Every \<open>datetime\<close> Python can build has its month in \<open>1..12\<close>; the loop below is the
  library's \<open>while compare(dt1, dtm)\<close>, entered only for such values.
\<close>

definition month_ok :: "naive_datetime \<Rightarrow> bool" where
  "month_ok d \<longleftrightarrow> 1 \<le> dt_month d \<and> dt_month d \<le> 12"

definition month_index :: "naive_datetime \<Rightarrow> int" where
  "month_index d = dt_year d * 12 + dt_month d"

lemma sgn_div_mod_12: "sgn m * (\<bar>m\<bar> div 12) * 12 + sgn m * (\<bar>m\<bar> mod 12) = (m::int)"
proof -
  have "sgn m * (\<bar>m\<bar> div 12) * 12 + sgn m * (\<bar>m\<bar> mod 12)
        = sgn m * (\<bar>m\<bar> div 12 * 12 + \<bar>m\<bar> mod 12)"
    by (simp only: distrib_left mult.assoc)
  also have "\<dots> = sgn m * \<bar>m\<bar>" by (simp only: div_mult_mod_eq)
  also have "\<dots> = m" by (simp add: sgn_mult_abs)
  finally show ?thesis .
qed

lemma set_months_total: "years (set_months m) * 12 + months (set_months m) = m"
  using sgn_div_mod_12 [of m] by (simp add: set_months_def)

lemma month_index_radd:
  "month_index (radd rd dt) = month_index dt + (years rd * 12 + months rd)"
  by (simp add: month_index_def radd_def Let_def dt_year_def dt_month_def split: if_splits)

lemma month_ok_radd:
  assumes "month_ok dt"
  shows "month_ok (radd (set_months m) dt)"
proof -
  have a: "\<bar>m\<bar> mod 12 \<ge> 0" "\<bar>m\<bar> mod 12 < 12" by simp_all
  have b: "\<bar>sgn m * (\<bar>m\<bar> mod 12)\<bar> < 12"
    using a by (simp add: abs_mult)
  show ?thesis
    using assms b
    by (auto simp add: month_ok_def radd_def set_months_def Let_def dt_month_def
        split: if_splits)
qed

lemma less_month_index:
  assumes "month_ok a" "month_ok b" "a < b"
  shows "month_index a \<le> month_index b"
proof -
  obtain ya ma ra where a: "a = (ya, ma, ra)" by (cases a)
  obtain yb mb rb where b: "b = (yb, mb, rb)" by (cases b)
  from assms show ?thesis
    unfolding a b
    by (auto simp add: month_ok_def month_index_def dt_year_def dt_month_def)
qed

function rd_adjust :: "bool \<Rightarrow> naive_datetime \<Rightarrow> naive_datetime \<Rightarrow> int \<Rightarrow> int" where
  "rd_adjust up dt1 dt2 m =
     (let dtm = radd (set_months m) dt2
      in if month_ok dt1 \<and> month_ok dt2 \<and> (if up then dt1 > dtm else dt1 < dtm)
         then rd_adjust up dt1 dt2 (m + (if up then 1 else - 1))
         else m)"
  by pat_completeness auto
termination
proof (relation "measure (\<lambda>(up, dt1, dt2, m).
          if up then nat (month_index dt1 - month_index dt2 - m + 1)
          else nat (month_index dt2 + m - month_index dt1 + 1))")
  show "wf (measure (\<lambda>(up, dt1, dt2, m).
          if up then nat (month_index dt1 - month_index dt2 - m + 1)
          else nat (month_index dt2 + m - month_index dt1 + 1)))"
    by simp
next
  fix up :: bool and dt1 dt2 :: naive_datetime and m :: int and dtm
  assume dtm: "dtm = radd (set_months m) dt2"
    and c: "month_ok dt1 \<and> month_ok dt2 \<and> (if up then dt1 > dtm else dt1 < dtm)"
  have ok: "month_ok dtm" using c dtm month_ok_radd by blast
  have mi: "month_index dtm = month_index dt2 + m"
    using dtm month_index_radd [of "set_months m" dt2] set_months_total [of m] by simp
  show "((up, dt1, dt2, m + (if up then 1 else - 1)), (up, dt1, dt2, m))
        \<in> measure (\<lambda>(up, dt1, dt2, m).
          if up then nat (month_index dt1 - month_index dt2 - m + 1)
          else nat (month_index dt2 + m - month_index dt1 + 1))"
  proof (cases up)
    case True
    then have "dtm < dt1" using c by simp
    then have "month_index dtm \<le> month_index dt1" using less_month_index ok c by blast
    then show ?thesis using True mi by simp
  next
    case False
    then have "dt1 < dtm" using c by simp
    then have "month_index dt1 \<le> month_index dtm" using less_month_index ok c by blast
    then show ?thesis using False mi by simp
  qed
qed

definition relativedelta_between :: "naive_datetime \<Rightarrow> naive_datetime \<Rightarrow> relativedelta" where
  "relativedelta_between dt1 dt2 =
     (let m = (dt_year dt1 - dt_year dt2) * 12 + (dt_month dt1 - dt_month dt2)
      in set_months (rd_adjust (dt1 < dt2) dt1 dt2 m))"

subsection \<open>Career entries and their dates\<close>

text \<open>
  A career entry is a dictionary read from \<open>career.json\<close>; the aggregator reads three of
  its keys with \<open>entry.get\<close>, so a missing key is \<open>None\<close> here.
\<close>

record career_entry =
  entry_type :: "string option"
  date_start :: "string option"
  date_end :: "string option"

text \<open>\<open>d.get(key, default)\<close> on a key that is present or missing.\<close>

definition get_or :: "'a option \<Rightarrow> 'a \<Rightarrow> 'a" where
  "get_or v dflt = (case v of None \<Rightarrow> dflt | Some x \<Rightarrow> x)"

text \<open>
  The month of \<open>%m\<close>: the text after the dash has to be \<open>1[0-2]\<close>, \<open>0[1-9]\<close> or \<open>[1-9]\<close>
  and nothing more.
\<close>

definition parse_month :: "string \<Rightarrow> int option" where
  "parse_month s =
     (case s of
        [c] \<Rightarrow> if CHR ''1'' \<le> c \<and> c \<le> CHR ''9'' then Some (digit_val c) else None
      | [c, d] \<Rightarrow>
          if c = CHR ''1'' \<and> CHR ''0'' \<le> d \<and> d \<le> CHR ''2'' then Some (10 + digit_val d)
          else if c = CHR ''0'' \<and> CHR ''1'' \<le> d \<and> d \<le> CHR ''9'' then Some (digit_val d)
          else None
      | _ \<Rightarrow> None)"

text \<open>
  \<open>datetime.strptime(s, "%Y-%m")\<close> on ASCII text: four digits of year (year 0 is out of
  range), a dash, the month; the result is midnight of the first day of the month.
  Anything else raises \<open>ValueError\<close>.
\<close>

definition strptime_Ym :: "string \<Rightarrow> py_error + naive_datetime" where
  "strptime_Ym s =
     (if length s \<ge> 5 \<and> list_all is_digit (take 4 s) \<and> s ! 4 = CHR ''-''
      then (case parse_month (drop 5 s) of
              None \<Rightarrow> Inl ValueError
            | Some m \<Rightarrow>
                (let y = int_of_digits (take 4 s)
                 in if y < 1 then Inl ValueError else Inr (y, m, 1, 0, 0, 0, 0)))
      else Inl ValueError)"

text \<open>
  \<open>datetime.now()\<close> is read once for every date that says \<open>present\<close>. The clock is the
  sequence of these readings; the number of readings taken so far is threaded through.
\<close>

type_synonym clock = "nat \<Rightarrow> naive_datetime"

definition parse_date :: "clock \<Rightarrow> nat \<Rightarrow> string \<Rightarrow> py_error + (naive_datetime \<times> nat)" where
  "parse_date clk n date_str =
     (if lower date_str = ''present'' then Inr (clk n, Suc n)
      else (case strptime_Ym date_str of Inl e \<Rightarrow> Inl e | Inr d \<Rightarrow> Inr (d, n)))"

type_synonym period = "naive_datetime \<times> naive_datetime"

text \<open>The first loop of \<open>_calculate_total_experience\<close>: the periods of the work entries.\<close>

fun collect_periods :: "clock \<Rightarrow> nat \<Rightarrow> career_entry list \<Rightarrow> py_error + period list" where
  "collect_periods clk n [] = Inr []"
| "collect_periods clk n (e # es) =
     (if entry_type e = Some ''work''
      then (case parse_date clk n (get_or (date_start e) []) of
              Inl err \<Rightarrow> Inl err
            | Inr (start, n1) \<Rightarrow>
                (case parse_date clk n1 (get_or (date_end e) ''present'') of
                   Inl err \<Rightarrow> Inl err
                 | Inr (end', n2) \<Rightarrow>
                     (case collect_periods clk n2 es of
                        Inl err \<Rightarrow> Inl err
                      | Inr ps \<Rightarrow> Inr ((start, end') # ps))))
      else collect_periods clk n es)"

subsection \<open>Merging and measuring\<close>

text \<open>
  One round of the merge loop: \<open>merged[-1]\<close> is extended when the current period starts
  no later than it ends, otherwise the current period is appended. \<open>merged\<close> is never
  empty: the loop starts from \<open>[periods[0]]\<close>.
\<close>

definition merge_step :: "period list \<Rightarrow> period \<Rightarrow> period list" where
  "merge_step merged cur =
     (let (last_start, last_end) = last merged; (current_start, current_end) = cur
      in if current_start \<le> last_end
         then butlast merged @ [(last_start, max last_end current_end)]
         else merged @ [(current_start, current_end)])"

text \<open>
  \<open>periods.sort(key=lambda x: x[0])\<close> (stable) and the merge loop over \<open>periods[1:]\<close>,
  starting from \<open>[periods[0]]\<close>. The source returns before it gets here when there is
  no period.
\<close>

definition merge_periods :: "period list \<Rightarrow> period list" where
  "merge_periods periods =
     (case sort_key fst periods of
        [] \<Rightarrow> []
      | first # rest \<Rightarrow> foldl merge_step [first] rest)"

text \<open>\<open>delta.years * 12 + delta.months\<close> for \<open>delta = relativedelta(end, start)\<close>.\<close>

definition period_months :: "period \<Rightarrow> int" where
  "period_months p =
     (let delta = relativedelta_between (snd p) (fst p)
      in years delta * 12 + months delta)"

text \<open>\<open>total_months\<close> after the loop over the merged periods (for a non-empty list).\<close>

definition total_months :: "period list \<Rightarrow> int" where
  "total_months periods = sum_list (map period_months (merge_periods periods))"

text \<open>The sum the merge avoids: every period measured on its own.\<close>

definition naive_months :: "period list \<Rightarrow> int" where
  "naive_months periods = sum_list (map period_months periods)"

text \<open>The rendering of a month count as years and months.\<close>

definition format_experience :: "int \<Rightarrow> string" where
  "format_experience total_m =
     (let y = total_m div 12;
          mo = total_m mod 12;
          parts = (if y > 0 then [str_int y @ ''y''] else [])
                  @ (if mo > 0 then [str_int mo @ ''m''] else [])
      in if parts \<noteq> [] then join '' '' parts else ''&lt; 1m'')"

definition calculate_total_experience :: "clock \<Rightarrow> career_entry list \<Rightarrow> py_error + string" where
  "calculate_total_experience clk entries =
     (if entries = [] then Inr ''0y''
      else (case collect_periods clk 0 entries of
              Inl err \<Rightarrow> Inl err
            | Inr periods \<Rightarrow>
                if periods = [] then Inr ''0y''
                else Inr (format_experience (total_months periods))))"

subsection \<open>The scenario of two overlapping jobs\<close>

definition job_a :: career_entry where
  "job_a = \<lparr>entry_type = Some ''work'', date_start = Some ''2020-01'', date_end = Some ''2021-12''\<rparr>"

definition job_b :: career_entry where
  "job_b = \<lparr>entry_type = Some ''work'', date_start = Some ''2021-06'', date_end = Some ''2022-06''\<rparr>"

definition period_a :: period where
  "period_a = ((2020, 1, 1, 0, 0, 0, 0), (2021, 12, 1, 0, 0, 0, 0))"

definition period_b :: period where
  "period_b = ((2021, 6, 1, 0, 0, 0, 0), (2022, 6, 1, 0, 0, 0, 0))"

lemma collect_two_jobs: "collect_periods clk n [job_a, job_b] = Inr [period_a, period_b]"
  by code_simp

lemma total_two_jobs: "total_months [period_a, period_b] = 29"
  by code_simp

lemma naive_two_jobs:
  "period_months period_a = 23 \<and> period_months period_b = 12
   \<and> naive_months [period_a, period_b] = 35"
  by code_simp

text \<open>
  C1, as stated, fails: for Job A 2020-01 to 2021-12 and Job B 2021-06 to 2022-06 the
  merged total is not 30 months. The merge gives the single period 2020-01 to 2022-06,
  which \<open>relativedelta\<close> measures as 2 years and 5 months.
\<close>

theorem C1_merged_total_is_not_30:
  "collect_periods (\<lambda>_. (2024, 1, 15, 0, 0, 0, 0)) 0 [job_a, job_b] = Inr [period_a, period_b]
   \<and> merge_periods [period_a, period_b] = [((2020, 1, 1, 0, 0, 0, 0), (2022, 6, 1, 0, 0, 0, 0))]
   \<and> total_months [period_a, period_b] \<noteq> 30"
  by code_simp

text \<open>
  C1, amended: for these two work entries, whatever the clock reads, the merged total is
  29 months and is rendered \<open>2y 5m\<close>; the two jobs measured separately give 23 and 12
  months, so the merged total is below their sum of 35.
\<close>

theorem C1_merged_total_two_jobs:
  "collect_periods clk 0 [job_a, job_b] = Inr [period_a, period_b]
   \<and> total_months [period_a, period_b] = 29
   \<and> calculate_total_experience clk [job_a, job_b] = Inr ''2y 5m''
   \<and> period_months period_a = 23 \<and> period_months period_b = 12
   \<and> naive_months [period_a, period_b] = 35
   \<and> total_months [period_a, period_b] < naive_months [period_a, period_b]"
proof -
  have r: "calculate_total_experience clk [job_a, job_b] = Inr (format_experience 29)"
    unfolding calculate_total_experience_def collect_two_jobs
    by (simp add: total_two_jobs)
  have f: "format_experience 29 = ''2y 5m''"
    by code_simp
  show ?thesis
    using r f collect_two_jobs [of clk 0] total_two_jobs naive_two_jobs by simp
qed

subsection \<open>Edge cases of the rendering\<close>

definition job_started_this_month :: career_entry where
  "job_started_this_month =
     \<lparr>entry_type = Some ''work'', date_start = Some ''2024-01'', date_end = Some ''present''\<rparr>"

lemma sub_month_job:
  "collect_periods (\<lambda>_. (2024, 1, 15, 9, 30, 0, 0)) 0 [job_started_this_month]
     = Inr [((2024, 1, 1, 0, 0, 0, 0), (2024, 1, 15, 9, 30, 0, 0))]
   \<and> total_months [((2024, 1, 1, 0, 0, 0, 0), (2024, 1, 15, 9, 30, 0, 0))] = 0"
  by code_simp

text \<open>
  C6, as stated, fails in its second half: a single job that started on 2024-01 and is
  still held on 2024-01-15 has a merged duration of less than one month, and the string
  returned is not \<open>< 1m\<close>: it is the XML-escaped text \<open>&lt; 1m\<close>.
\<close>

theorem C6_sentinel_is_escaped:
  "calculate_total_experience (\<lambda>_. (2024, 1, 15, 9, 30, 0, 0)) [job_started_this_month]
     = Inr ''&lt; 1m''
   \<and> calculate_total_experience (\<lambda>_. (2024, 1, 15, 9, 30, 0, 0)) [job_started_this_month]
     \<noteq> Inr ''< 1m''"
proof -
  have "calculate_total_experience (\<lambda>_. (2024, 1, 15, 9, 30, 0, 0)) [job_started_this_month]
        = Inr (format_experience 0)"
    unfolding calculate_total_experience_def conjunct1 [OF sub_month_job]
    by (simp add: conjunct2 [OF sub_month_job])
  moreover have "format_experience 0 = ''&lt; 1m''"
    by code_simp
  ultimately show ?thesis by simp
qed

text \<open>
  C6, amended: an empty list of career entries yields \<open>0y\<close>, and so does a list with no
  work entry; a non-empty list of work periods whose merged total is zero whole months
  yields the fixed text \<open>&lt; 1m\<close>, the XML-escaped form of \<open>< 1m\<close>.
\<close>

theorem C6_edge_cases:
  "calculate_total_experience clk [] = Inr ''0y''
   \<and> (collect_periods clk 0 entries = Inr [] \<longrightarrow>
        calculate_total_experience clk entries = Inr ''0y'')
   \<and> (collect_periods clk 0 entries = Inr periods \<and> periods \<noteq> [] \<and> total_months periods = 0 \<longrightarrow>
        calculate_total_experience clk entries = Inr ''&lt; 1m'')"
proof -
  have f: "format_experience 0 = ''&lt; 1m''"
    by code_simp
  have ne: "collect_periods clk 0 entries = Inr periods \<Longrightarrow> periods \<noteq> [] \<Longrightarrow> entries \<noteq> []"
    by (cases entries) auto
  show ?thesis
    using f ne by (auto simp add: calculate_total_experience_def)
qed

theorem C6_edge_cases_witness:
  "collect_periods (\<lambda>_. (2024, 1, 15, 9, 30, 0, 0)) 0 [job_started_this_month]
     = Inr [((2024, 1, 1, 0, 0, 0, 0), (2024, 1, 15, 9, 30, 0, 0))]
   \<and> total_months [((2024, 1, 1, 0, 0, 0, 0), (2024, 1, 15, 9, 30, 0, 0))] = 0
   \<and> calculate_total_experience (\<lambda>_. (2024, 1, 15, 9, 30, 0, 0)) [job_started_this_month]
       = Inr ''&lt; 1m''
   \<and> collect_periods (\<lambda>_. (2024, 1, 15, 9, 30, 0, 0)) 0 [\<lparr>entry_type = Some ''education'',
         date_start = Some ''2015-02'', date_end = Some ''2019-12''\<rparr>] = Inr []
   \<and> calculate_total_experience (\<lambda>_. (2024, 1, 15, 9, 30, 0, 0)) [\<lparr>entry_type = Some ''education'',
         date_start = Some ''2015-02'', date_end = Some ''2019-12''\<rparr>] = Inr ''0y''"
proof -
  have e: "collect_periods (\<lambda>_. (2024, 1, 15, 9, 30, 0, 0)) 0 [\<lparr>entry_type = Some ''education'',
         date_start = Some ''2015-02'', date_end = Some ''2019-12''\<rparr>] = Inr []"
    by simp
  show ?thesis
    using sub_month_job e
      C6_edge_cases [of "\<lambda>_. (2024, 1, 15, 9, 30, 0, 0)" "[job_started_this_month]"
        "[((2024, 1, 1, 0, 0, 0, 0), (2024, 1, 15, 9, 30, 0, 0))]"]
      C6_edge_cases [of "\<lambda>_. (2024, 1, 15, 9, 30, 0, 0)" "[\<lparr>entry_type = Some ''education'',
         date_start = Some ''2015-02'', date_end = Some ''2019-12''\<rparr>]" "[]"]
    by simp
qed

section \<open>Metrics aggregator\<close>

subsection \<open>Timestamps\<close>

text \<open>
  A \<open>datetime\<close> as \<open>datetime.fromisoformat\<close> returns it: the fields as written in the
  text, and \<open>tzinfo\<close>, which is \<open>None\<close> for a text without a UTC offset and otherwise the
  offset in microseconds.
\<close>

record datetime =
  dt_fields :: naive_datetime
  tzinfo :: "int option"

text \<open>
  \<open>datetime.fromisoformat\<close> belongs to the standard library, and the texts it accepts
  differ between Python versions. The aggregators take it as a parameter; what they do
  with its result is modelled in full.
\<close>

type_synonym iso_parser = "string \<Rightarrow> py_error + datetime"

text \<open>\<open>dt.date()\<close>: the date fields as they stand, with no conversion between offsets.\<close>

definition date_of :: "datetime \<Rightarrow> date" where
  "date_of d = (dt_year (dt_fields d), dt_month (dt_fields d), dt_day (dt_fields d))"

definition zfill :: "nat \<Rightarrow> string \<Rightarrow> string" where
  "zfill w s = replicate (w - length s) (CHR ''0'') @ s"

text \<open>\<open>date.isoformat()\<close>: \<open>YYYY-MM-DD\<close>.\<close>

definition date_isoformat :: "date \<Rightarrow> string" where
  "date_isoformat d =
     (case d of (y, m, dd) \<Rightarrow>
        zfill 4 (str_int y) @ ''-'' @ zfill 2 (str_int m) @ ''-'' @ zfill 2 (str_int dd))"

text \<open>
  The microseconds from the start of day 0 of the calendar to the fields of a datetime,
  and the same for the instant it denotes (the offset taken off). The difference of two
  datetimes in Python is the difference of these numbers.
\<close>

definition naive_micros :: "naive_datetime \<Rightarrow> int" where
  "naive_micros d =
     (case d of (y, m, dd, h, mi, s, us) \<Rightarrow>
        ((toordinal (y, m, dd) * 86400 + h * 3600 + mi * 60 + s) * 1000000 + us))"

definition utc_micros :: "datetime \<Rightarrow> int" where
  "utc_micros d = naive_micros (dt_fields d) - get_or (tzinfo d) 0"

text \<open>
  \<open>a >= b\<close> on datetimes: with equal offsets (or both naive) the fields are compared;
  a naive and an aware datetime cannot be ordered (\<open>TypeError\<close>); with two different
  offsets the instants are compared.
\<close>

definition dt_ge :: "datetime \<Rightarrow> datetime \<Rightarrow> py_error + bool" where
  "dt_ge a b =
     (if tzinfo a = tzinfo b then Inr (dt_fields a \<ge> dt_fields b)
      else if tzinfo a = None \<or> tzinfo b = None then Inl TypeError
      else Inr (utc_micros a \<ge> utc_micros b))"

text \<open>The values the \<open>datetime\<close> constructor accepts.\<close>

definition valid_datetime :: "naive_datetime \<Rightarrow> bool" where
  "valid_datetime d =
     (case d of (y, m, dd, h, mi, s, us) \<Rightarrow>
        1 \<le> y \<and> y \<le> 9999 \<and> 1 \<le> m \<and> m \<le> 12 \<and> 1 \<le> dd \<and> dd \<le> days_in_month y m
        \<and> 0 \<le> h \<and> h < 24 \<and> 0 \<le> mi \<and> mi < 60 \<and> 0 \<le> s \<and> s < 60
        \<and> 0 \<le> us \<and> us < 1000000)"

text \<open>
  One parser to run the aggregators on concrete records: the texts that
  \<open>datetime.isoformat()\<close> writes for a whole number of seconds, \<open>YYYY-MM-DDTHH:MM:SS\<close>
  with or without an offset \<open>+HH:MM\<close> or \<open>-HH:MM\<close>, which is how the collector writes
  every timestamp. Every version of \<open>fromisoformat\<close> reads these texts this way; any
  other text is refused here.
\<close>

definition digits_at :: "string \<Rightarrow> nat \<Rightarrow> nat \<Rightarrow> int option" where
  "digits_at s i n =
     (let t = take n (drop i s)
      in if length t = n \<and> list_all is_digit t then Some (int_of_digits t) else None)"

definition parse_offset :: "string \<Rightarrow> (int option) option" where
  "parse_offset t =
     (if t = [] then Some None
      else if length t = 6 \<and> (t ! 0 = CHR ''+'' \<or> t ! 0 = CHR ''-'') \<and> t ! 3 = CHR '':''
      then (case (digits_at t 1 2, digits_at t 4 2) of
              (Some h, Some m) \<Rightarrow>
                if h < 24 \<and> m < 60
                then Some (Some ((if t ! 0 = CHR ''-'' then - 1 else 1) * (h * 3600 + m * 60) * 1000000))
                else None
            | _ \<Rightarrow> None)
      else None)"

definition fromisoformat_seconds :: iso_parser where
  "fromisoformat_seconds s =
     (if length s \<ge> 19 \<and> s ! 4 = CHR ''-'' \<and> s ! 7 = CHR ''-'' \<and> s ! 10 = CHR ''T''
         \<and> s ! 13 = CHR '':'' \<and> s ! 16 = CHR '':''
      then (case (digits_at s 0 4, digits_at s 5 2, digits_at s 8 2,
                  digits_at s 11 2, digits_at s 14 2, digits_at s 17 2, parse_offset (drop 19 s)) of
              (Some y, Some m, Some dd, Some h, Some mi, Some sec, Some tz) \<Rightarrow>
                if valid_datetime (y, m, dd, h, mi, sec, 0)
                then Inr \<lparr>dt_fields = (y, m, dd, h, mi, sec, 0), tzinfo = tz\<rparr>
                else Inl ValueError
            | _ \<Rightarrow> Inl ValueError)
      else Inl ValueError)"

subsection \<open>Raw records\<close>

record commit =
  commit_repo :: string
  commit_date :: string

record pull_request =
  pr_repo :: string
  pr_created_at :: string

record issue =
  issue_repo :: string
  issue_created_at :: string

subsection \<open>Daily statistics\<close>

text \<open>\<open>commits_by_date[date] += 1\<close> on a \<open>defaultdict(int)\<close>, in insertion order.\<close>

fun bump :: "string \<Rightarrow> (string \<times> int) list \<Rightarrow> (string \<times> int) list" where
  "bump k [] = [(k, 1)]"
| "bump k ((k', c) # rest) = (if k = k' then (k', c + 1) # rest else (k', c) # bump k rest)"

fun count_by_date :: "iso_parser \<Rightarrow> commit list \<Rightarrow> (string \<times> int) list
    \<Rightarrow> py_error + (string \<times> int) list" where
  "count_by_date fromisoformat [] commits_by_date = Inr commits_by_date"
| "count_by_date fromisoformat (c # cs) commits_by_date =
     (case fromisoformat (commit_date c) of
        Inl e \<Rightarrow> Inl e
      | Inr d \<Rightarrow> count_by_date fromisoformat cs (bump (date_isoformat (date_of d)) commits_by_date))"

text \<open>
  The result of \<open>calculate_daily_stats\<close>. Its third entry, \<open>average_commits\<close>, is a
  rounded floating-point quotient and is left out.
\<close>

record daily_stats =
  commits_per_day :: "(string \<times> int) list"
  total_days_active :: int

definition calculate_daily_stats :: "iso_parser \<Rightarrow> commit list \<Rightarrow> py_error + daily_stats" where
  "calculate_daily_stats fromisoformat commits =
     (case count_by_date fromisoformat commits [] of
        Inl e \<Rightarrow> Inl e
      | Inr commits_by_date \<Rightarrow>
          Inr \<lparr>commits_per_day = sort commits_by_date,
               total_days_active = int (length commits_by_date)\<rparr>)"

subsection \<open>Activity streak\<close>

record streak =
  current :: int
  longest :: int

fun dates_of :: "iso_parser \<Rightarrow> commit list \<Rightarrow> py_error + date list" where
  "dates_of fromisoformat [] = Inr []"
| "dates_of fromisoformat (c # cs) =
     (case fromisoformat (commit_date c) of
        Inl e \<Rightarrow> Inl e
      | Inr d \<Rightarrow> (case dates_of fromisoformat cs of
                    Inl e \<Rightarrow> Inl e
                  | Inr ds \<Rightarrow> Inr (date_of d # ds)))"

text \<open>
  The loop \<open>for i in range(len(unique_dates) - 1, 0, -1)\<close>, on the dates from the latest
  to the earliest: it counts while neighbours are one day apart and stops at the first
  other gap.
\<close>

fun current_run :: "date list \<Rightarrow> int \<Rightarrow> int" where
  "current_run (later # earlier # rest) current_streak =
     (if days_between later earlier = 1
      then current_run (earlier # rest) (current_streak + 1)
      else current_streak)"
| "current_run _ current_streak = current_streak"

text \<open>
  The loop \<open>for i in range(1, len(unique_dates))\<close>, on the dates in ascending order, with
  its two variables \<open>longest_streak\<close> and \<open>temp_streak\<close>.
\<close>

fun longest_run :: "date list \<Rightarrow> int \<Rightarrow> int \<Rightarrow> int \<times> int" where
  "longest_run (earlier # later # rest) longest_streak temp_streak =
     (if days_between later earlier = 1
      then longest_run (later # rest) (max longest_streak (temp_streak + 1)) (temp_streak + 1)
      else longest_run (later # rest) longest_streak 1)"
| "longest_run _ longest_streak temp_streak = (longest_streak, temp_streak)"

text \<open>\<open>today\<close> is \<open>datetime.now(timezone.utc).date()\<close>.\<close>

definition calculate_activity_streak :: "iso_parser \<Rightarrow> date \<Rightarrow> commit list \<Rightarrow> py_error + streak" where
  "calculate_activity_streak fromisoformat today commits =
     (if commits = [] then Inr \<lparr>current = 0, longest = 0\<rparr>
      else (case dates_of fromisoformat commits of
              Inl e \<Rightarrow> Inl e
            | Inr ds \<Rightarrow>
                (let dates = sort ds;
                     unique_dates = sort (remdups dates);
                     current_streak =
                       (if unique_dates \<noteq> [] \<and> days_between today (last unique_dates) \<le> 1
                        then current_run (rev unique_dates) 1
                        else 0);
                     (longest_streak, temp_streak) = longest_run unique_dates 0 1
                 in Inr \<lparr>current = current_streak, longest = max longest_streak temp_streak\<rparr>)))"

subsection \<open>Monthly statistics\<close>

text \<open>
  The length of \<open>[x for x in xs if datetime.fromisoformat(x[key]) >= month_start]\<close>: the
  texts are read in order, and the first one that does not parse, or cannot be compared
  with \<open>month_start\<close>, raises.
\<close>

fun count_since :: "iso_parser \<Rightarrow> datetime \<Rightarrow> string list \<Rightarrow> py_error + int" where
  "count_since fromisoformat month_start [] = Inr 0"
| "count_since fromisoformat month_start (s # ss) =
     (case fromisoformat s of
        Inl e \<Rightarrow> Inl e
      | Inr d \<Rightarrow>
          (case dt_ge d month_start of
             Inl e \<Rightarrow> Inl e
           | Inr keep \<Rightarrow>
               (case count_since fromisoformat month_start ss of
                  Inl e \<Rightarrow> Inl e
                | Inr n \<Rightarrow> Inr (if keep then n + 1 else n))))"

record monthly_stats =
  commits_this_month :: int
  prs_this_month :: int
  issues_this_month :: int
  month :: string

text \<open>
  \<open>now\<close> holds the fields of \<open>datetime.now(timezone.utc)\<close>; \<open>month_start\<close> is the first
  instant of its month, in UTC.
\<close>

definition calculate_monthly_stats ::
    "iso_parser \<Rightarrow> naive_datetime \<Rightarrow> commit list \<Rightarrow> pull_request list \<Rightarrow> issue list
     \<Rightarrow> py_error + monthly_stats" where
  "calculate_monthly_stats fromisoformat now commits prs issues =
     (let month_start = \<lparr>dt_fields = (dt_year now, dt_month now, 1, 0, 0, 0, 0), tzinfo = Some 0\<rparr>
      in case count_since fromisoformat month_start (map commit_date commits) of
           Inl e \<Rightarrow> Inl e
         | Inr nc \<Rightarrow>
             (case count_since fromisoformat month_start (map pr_created_at prs) of
                Inl e \<Rightarrow> Inl e
              | Inr np \<Rightarrow>
                  (case count_since fromisoformat month_start (map issue_created_at issues) of
                     Inl e \<Rightarrow> Inl e
                   | Inr ni \<Rightarrow>
                       Inr \<lparr>commits_this_month = nc, prs_this_month = np,
                            issues_this_month = ni,
                            month = zfill 4 (str_int (dt_year now)) @ ''-''
                                    @ zfill 2 (str_int (dt_month now))\<rparr>)))"

section \<open>Rankings aggregator\<close>

text \<open>
  A repository record as the collector writes it; \<open>html_url\<close> is read with \<open>repo.get\<close>,
  \<open>language\<close>, \<open>description\<close> and \<open>pushed_at\<close> may be \<open>None\<close>.
\<close>

record repo =
  repo_name :: string
  repo_full_name :: string
  repo_html_url :: "string option"
  repo_language :: "string option"
  repo_stars :: int
  repo_forks :: int
  repo_description :: "string option"
  repo_pushed_at :: "string option"
  repo_private :: bool

text \<open>
  \<open>ranked.sort(key=..., reverse=True)\<close>: Python sorts the reversed list with its stable
  ascending sort and reverses the result, so equal keys keep their input order.
\<close>

definition sort_desc :: "('a \<Rightarrow> 'k::linorder) \<Rightarrow> 'a list \<Rightarrow> 'a list" where
  "sort_desc key xs = rev (sort_key key (rev xs))"

text \<open>
  The slice \<open>xs[:limit]\<close> for an \<open>int\<close>: a negative \<open>limit\<close> counts from the end, so it
  drops the last \<open>-limit\<close> elements.
\<close>

definition slice_to :: "int \<Rightarrow> 'a list \<Rightarrow> 'a list" where
  "slice_to limit xs =
     (if limit \<ge> 0 then take (nat limit) xs else take (nat (int (length xs) + limit)) xs)"

text \<open>
  The counters \<open>activity_scores[name][...]\<close> and \<open>commits_by_repo[name]\<close> after the counting
  loops: the number of records whose \<open>repo\<close> is \<open>name\<close> (0 for a name never seen).
\<close>

definition count_repo :: "string \<Rightarrow> string list \<Rightarrow> int" where
  "count_repo name names = int (length (filter (\<lambda>r. r = name) names))"

subsection \<open>By activity\<close>

record activity_rank =
  act_name :: string
  act_full_name :: string
  act_html_url :: string
  act_language :: "string option"
  score :: int
  breakdown :: "int \<times> int \<times> int"
  act_stars :: int
  act_private :: bool

definition activity_entry ::
    "commit list \<Rightarrow> pull_request list \<Rightarrow> issue list \<Rightarrow> repo \<Rightarrow> activity_rank" where
  "activity_entry commits prs issues r =
     (let c = count_repo (repo_name r) (map commit_repo commits);
          p = count_repo (repo_name r) (map pr_repo prs);
          i = count_repo (repo_name r) (map issue_repo issues)
      in \<lparr>act_name = repo_name r, act_full_name = repo_full_name r,
           act_html_url = get_or (repo_html_url r) [],
           act_language = repo_language r, score = c + p + i, breakdown = (c, p, i),
           act_stars = repo_stars r, act_private = repo_private r\<rparr>)"

definition rank_by_activity ::
    "repo list \<Rightarrow> commit list \<Rightarrow> pull_request list \<Rightarrow> issue list \<Rightarrow> int \<Rightarrow> activity_rank list" where
  "rank_by_activity repos commits prs issues limit =
     (let ranked = filter (\<lambda>e. score e > 0) (map (activity_entry commits prs issues) repos)
      in slice_to limit (sort_desc score ranked))"

subsection \<open>By stars\<close>

record star_rank =
  star_name :: string
  star_full_name :: string
  star_language :: "string option"
  stars :: int
  forks :: int
  description :: "string option"

definition star_entry :: "repo \<Rightarrow> star_rank" where
  "star_entry r =
     \<lparr>star_name = repo_name r, star_full_name = repo_full_name r,
      star_language = repo_language r, stars = repo_stars r, forks = repo_forks r,
      description = repo_description r\<rparr>"

definition rank_by_stars :: "repo list \<Rightarrow> int \<Rightarrow> star_rank list" where
  "rank_by_stars repos limit =
     (let starred = map star_entry (filter (\<lambda>r. repo_stars r > 0) repos)
      in slice_to limit (sort_desc stars starred))"

subsection \<open>By commits\<close>

record commit_rank =
  cr_name :: string
  cr_full_name :: string
  cr_language :: "string option"
  commit_count :: int
  cr_private :: bool

definition commit_entry :: "commit list \<Rightarrow> repo \<Rightarrow> commit_rank" where
  "commit_entry commits r =
     \<lparr>cr_name = repo_name r, cr_full_name = repo_full_name r, cr_language = repo_language r,
      commit_count = count_repo (repo_name r) (map commit_repo commits),
      cr_private = repo_private r\<rparr>"

definition rank_by_commits :: "repo list \<Rightarrow> commit list \<Rightarrow> int \<Rightarrow> commit_rank list" where
  "rank_by_commits repos commits limit =
     (let ranked = filter (\<lambda>e. commit_count e > 0) (map (commit_entry commits) repos)
      in slice_to limit (sort_desc commit_count ranked))"

subsection \<open>By recent activity\<close>

record recent_rank =
  rec_name :: string
  rec_full_name :: string
  rec_language :: "string option"
  last_push :: string
  days_ago :: int
  rec_private :: bool

text \<open>
  The loop of \<open>rank_by_recent_activity\<close>. A repository is kept when \<open>pushed_at\<close> is truthy
  (neither \<open>None\<close> nor empty). The clock holds the fields of the successive readings of
  \<open>datetime.now(timezone.utc)\<close>, one for every repository kept. Both branches of the
  source's test on \<open>pushed.tzinfo\<close> drop the offsets and subtract the fields;
  \<open>timedelta.days\<close> is the floor of the difference in days.
\<close>

fun recent_entries :: "iso_parser \<Rightarrow> clock \<Rightarrow> nat \<Rightarrow> repo list \<Rightarrow> py_error + recent_rank list" where
  "recent_entries fromisoformat clk n [] = Inr []"
| "recent_entries fromisoformat clk n (r # rs) =
     (case repo_pushed_at r of
        None \<Rightarrow> recent_entries fromisoformat clk n rs
      | Some pushed_at \<Rightarrow>
          if pushed_at = [] then recent_entries fromisoformat clk n rs
          else (case fromisoformat pushed_at of
                  Inl e \<Rightarrow> Inl e
                | Inr pushed \<Rightarrow>
                    (let now_naive = clk n;
                         pushed_naive = dt_fields pushed;
                         entry = \<lparr>rec_name = repo_name r, rec_full_name = repo_full_name r,
                                  rec_language = repo_language r, last_push = pushed_at,
                                  days_ago = (naive_micros now_naive - naive_micros pushed_naive)
                                             div (86400 * 1000000),
                                  rec_private = repo_private r\<rparr>
                     in case recent_entries fromisoformat clk (Suc n) rs of
                          Inl e \<Rightarrow> Inl e
                        | Inr es \<Rightarrow> Inr (entry # es))))"

definition rank_by_recent_activity ::
    "iso_parser \<Rightarrow> clock \<Rightarrow> repo list \<Rightarrow> int \<Rightarrow> py_error + recent_rank list" where
  "rank_by_recent_activity fromisoformat clk repos limit =
     (case recent_entries fromisoformat clk 0 repos of
        Inl e \<Rightarrow> Inl e
      | Inr recent \<Rightarrow> Inr (slice_to limit (sort_desc last_push recent)))"

section \<open>Batch chart generation\<close>

text \<open>
  One row of \<open>chart_configs\<close>: the chart's name and the file it is written to. What
  running its generator does is an \<open>outcome\<close>: it raises an exception with a message, or it
  returns a path, at which there is no file or a file of some size.
\<close>

record chart_config =
  chart_name :: string
  chart_filename :: string

datatype outcome = Raises string | Returns "nat option"

definition chart_configs :: "chart_config list" where
  "chart_configs =
     [\<lparr>chart_name = ''Stats Hero'', chart_filename = ''stats_hero.svg''\<rparr>,
      \<lparr>chart_name = ''Language Chart'', chart_filename = ''language_chart.svg''\<rparr>,
      \<lparr>chart_name = ''Performance Comparison'', chart_filename = ''performance_comparison.svg''\<rparr>,
      \<lparr>chart_name = ''Featured Projects'', chart_filename = ''featured_projects.svg''\<rparr>,
      \<lparr>chart_name = ''Activity Calendar'', chart_filename = ''activity_calendar.svg''\<rparr>,
      \<lparr>chart_name = ''Goals Tracker'', chart_filename = ''goals_tracker.svg''\<rparr>,
      \<lparr>chart_name = ''Learning Stats'', chart_filename = ''learning_stats.svg''\<rparr>,
      \<lparr>chart_name = ''Career Timeline'', chart_filename = ''career_timeline.svg''\<rparr>]"

text \<open>
  What \<open>main\<close> meets outside itself: whether \<open>data/metrics.json\<close> exists, an exception
  raised before the loop (by a renderer's constructor or while the loaded data is read),
  and the outcome of every chart's generator.
\<close>

record environment =
  metrics_exists :: bool
  startup_error :: "py_error option"
  generate :: "chart_config \<Rightarrow> outcome"

text \<open>The body of the loop: the \<open>try\<close> with its file check, and the \<open>except Exception\<close>.\<close>

definition chart_step ::
    "(chart_config \<Rightarrow> outcome) \<Rightarrow> string list \<times> string list \<Rightarrow> chart_config
     \<Rightarrow> string list \<times> string list" where
  "chart_step gen st cfg =
     (case st of (charts_generated, errors) \<Rightarrow>
        (case gen cfg of
           Raises msg \<Rightarrow> (charts_generated, errors @ [chart_name cfg @ '': '' @ msg])
         | Returns file_size \<Rightarrow>
             if (case file_size of None \<Rightarrow> False | Some n \<Rightarrow> n > 0)
             then (charts_generated @ [chart_filename cfg], errors)
             else (charts_generated, errors @ [chart_name cfg @ '': Empty file generated''])))"

record run_result =
  charts_generated :: "string list"
  errors :: "string list"
  exit_code :: int

definition main :: "environment \<Rightarrow> py_error + run_result" where
  "main env =
     (if \<not> metrics_exists env
      then Inr \<lparr>charts_generated = [], errors = [], exit_code = 1\<rparr>
      else (case startup_error env of
              Some e \<Rightarrow> Inl e
            | None \<Rightarrow>
                (case foldl (chart_step (generate env)) ([], []) chart_configs of
                   (generated, errs) \<Rightarrow>
                     Inr \<lparr>charts_generated = generated, errors = errs,
                          exit_code = (if length errs = 0 then 0 else 1)\<rparr>)))"

text \<open>\<open>sys.exit(main())\<close>: an exception that leaves \<open>main\<close> ends the process with status 1.\<close>

definition exit_status :: "environment \<Rightarrow> int" where
  "exit_status env = (case main env of Inl e \<Rightarrow> 1 | Inr r \<Rightarrow> exit_code r)"

section \<open>Properties of the streak calculator\<close>

definition commits_on :: "string list \<Rightarrow> commit list" where
  "commits_on stamps = map (\<lambda>s. \<lparr>commit_repo = ''profile'', commit_date = s\<rparr>) stamps"

definition scenario_commits :: "commit list" where
  "scenario_commits =
     commits_on [''2024-01-01T09:15:00+00:00'', ''2024-01-02T18:40:00+00:00'',
                 ''2024-01-03T07:05:00+00:00'', ''2024-01-10T12:00:00+00:00'']"

text \<open>
  C4: for commit records dated 2024-01-01, 2024-01-02, 2024-01-03 and 2024-01-10, with
  today (UTC) = 2024-01-10, the streak calculator returns current streak 1 and longest
  streak 3.
\<close>

theorem C4_streak_scenario:
  "calculate_activity_streak fromisoformat_seconds (2024, 1, 10) scenario_commits
     = Inr \<lparr>current = 1, longest = 3\<rparr>"
  by code_simp

section \<open>Properties of the batch chart generation\<close>

definition chart_ok :: "(chart_config \<Rightarrow> outcome) \<Rightarrow> chart_config \<Rightarrow> bool" where
  "chart_ok gen cfg =
     (case gen cfg of
        Raises msg \<Rightarrow> False
      | Returns file_size \<Rightarrow> (case file_size of None \<Rightarrow> False | Some n \<Rightarrow> n > 0))"

definition error_line :: "(chart_config \<Rightarrow> outcome) \<Rightarrow> chart_config \<Rightarrow> string" where
  "error_line gen cfg =
     (case gen cfg of
        Raises msg \<Rightarrow> chart_name cfg @ '': '' @ msg
      | Returns file_size \<Rightarrow> chart_name cfg @ '': Empty file generated'')"

lemma chart_loop:
  "foldl (chart_step gen) (generated, errs) cfgs
     = (generated @ map chart_filename (filter (chart_ok gen) cfgs),
        errs @ map (error_line gen) (filter (\<lambda>c. \<not> chart_ok gen c) cfgs))"
proof (induction cfgs arbitrary: generated errs)
  case Nil
  show ?case by simp
next
  case (Cons c cs)
  show ?case
  proof (cases "gen c")
    case (Raises msg)
    then have "chart_step gen (generated, errs) c = (generated, errs @ [error_line gen c])"
      and "\<not> chart_ok gen c"
      by (simp_all add: chart_step_def error_line_def chart_ok_def)
    then show ?thesis using Cons.IH by simp
  next
    case (Returns file_size)
    show ?thesis
    proof (cases "chart_ok gen c")
      case True
      then have "chart_step gen (generated, errs) c = (generated @ [chart_filename c], errs)"
        using Returns by (simp add: chart_step_def chart_ok_def)
      then show ?thesis using Cons.IH True by simp
    next
      case False
      then have "chart_step gen (generated, errs) c = (generated, errs @ [error_line gen c])"
        using Returns by (simp add: chart_step_def chart_ok_def error_line_def)
      then show ?thesis using Cons.IH False by simp
    qed
  qed
qed

text \<open>
  C9: when the batch generation is reached (the metrics file exists and nothing raised
  before the loop), \<open>main\<close> returns: every chart that raises, or leaves no file or an empty
  one, adds exactly its own line to the error list; every other chart is generated and
  listed, whatever happened to the charts before it; and the exit code is 0 if and only
  if no chart failed, and 1 otherwise.
\<close>

theorem C9_batch_errors_are_per_chart:
  assumes "metrics_exists env" and "startup_error env = None"
  shows "\<exists>r. main env = Inr r
           \<and> errors r = map (error_line (generate env))
                          (filter (\<lambda>c. \<not> chart_ok (generate env) c) chart_configs)
           \<and> charts_generated r = map chart_filename
                          (filter (chart_ok (generate env)) chart_configs)
           \<and> length (charts_generated r) + length (errors r) = length chart_configs
           \<and> (\<forall>c msg. c \<in> set chart_configs \<and> generate env c = Raises msg
                  \<longrightarrow> chart_name c @ '': '' @ msg \<in> set (errors r))
           \<and> (exit_code r = 0 \<longleftrightarrow> (\<forall>c \<in> set chart_configs. chart_ok (generate env) c))
           \<and> (exit_code r \<noteq> 0 \<longrightarrow> exit_code r = 1)
           \<and> exit_status env = exit_code r"
proof -
  let ?gen = "generate env"
  let ?good = "filter (chart_ok ?gen) chart_configs"
  let ?bad = "filter (\<lambda>c. \<not> chart_ok ?gen c) chart_configs"
  let ?r = "\<lparr>charts_generated = map chart_filename ?good,
             errors = map (error_line ?gen) ?bad,
             exit_code = (if length (map (error_line ?gen) ?bad) = 0 then 0 else 1)\<rparr>"
  have loop: "foldl (chart_step ?gen) ([], []) chart_configs
                = (map chart_filename ?good, map (error_line ?gen) ?bad)"
    using chart_loop [of ?gen "[]" "[]" chart_configs] by simp
  have m: "main env = Inr ?r"
    using assms by (simp add: main_def loop)
  have len: "length ?good + length ?bad = length chart_configs"
    using sum_length_filter_compl [of "chart_ok ?gen" chart_configs] by simp
  have raised: "\<forall>c msg. c \<in> set chart_configs \<and> ?gen c = Raises msg
                  \<longrightarrow> chart_name c @ '': '' @ msg \<in> set (map (error_line ?gen) ?bad)"
  proof (intro allI impI)
    fix c msg
    assume a: "c \<in> set chart_configs \<and> ?gen c = Raises msg"
    then have "c \<in> set ?bad" by (simp add: chart_ok_def)
    moreover have "error_line ?gen c = chart_name c @ '': '' @ msg"
      using a by (simp add: error_line_def)
    ultimately show "chart_name c @ '': '' @ msg \<in> set (map (error_line ?gen) ?bad)"
      by force
  qed
  have code: "(exit_code ?r = 0) = (\<forall>c \<in> set chart_configs. chart_ok ?gen c)"
    by (simp add: filter_empty_conv)
  have st: "exit_status env = exit_code ?r"
    by (simp add: exit_status_def m)
  show ?thesis
  proof (intro exI [of _ ?r] conjI)
    show "main env = Inr ?r" by (rule m)
    show "errors ?r = map (error_line ?gen) ?bad" by simp
    show "charts_generated ?r = map chart_filename ?good" by simp
    show "length (charts_generated ?r) + length (errors ?r) = length chart_configs"
      using len by simp
    show "\<forall>c msg. c \<in> set chart_configs \<and> ?gen c = Raises msg
            \<longrightarrow> chart_name c @ '': '' @ msg \<in> set (errors ?r)"
      using raised by simp
    show "(exit_code ?r = 0) = (\<forall>c \<in> set chart_configs. chart_ok ?gen c)" by (rule code)
    show "exit_code ?r \<noteq> 0 \<longrightarrow> exit_code ?r = 1" by simp
    show "exit_status env = exit_code ?r" by (rule st)
  qed
qed

definition two_charts_fail :: environment where
  "two_charts_fail =
     \<lparr>metrics_exists = True, startup_error = None,
      generate = (\<lambda>c. if chart_name c = ''Language Chart'' then Raises ''boom''
                      else if chart_name c = ''Goals Tracker'' then Returns (Some 0)
                      else Returns (Some 2048))\<rparr>"

lemma two_charts_fail_run:
  "main two_charts_fail =
     Inr \<lparr>charts_generated =
            [''stats_hero.svg'', ''performance_comparison.svg'', ''featured_projects.svg'',
             ''activity_calendar.svg'', ''learning_stats.svg'', ''career_timeline.svg''],
          errors = [''Language Chart: boom'', ''Goals Tracker: Empty file generated''],
          exit_code = 1\<rparr>"
  by code_simp

theorem C9_batch_errors_are_per_chart_witness:
  "metrics_exists two_charts_fail \<and> startup_error two_charts_fail = None
   \<and> (\<exists>r. main two_charts_fail = Inr r
         \<and> errors r = [''Language Chart: boom'', ''Goals Tracker: Empty file generated'']
         \<and> length (charts_generated r) + length (errors r) = length chart_configs
         \<and> exit_code r = 1
         \<and> exit_status two_charts_fail = exit_code r)"
proof -
  have a: "metrics_exists two_charts_fail" and b: "startup_error two_charts_fail = None"
    by (simp_all add: two_charts_fail_def)
  obtain r where r: "main two_charts_fail = Inr r"
      and len: "length (charts_generated r) + length (errors r) = length chart_configs"
      and st: "exit_status two_charts_fail = exit_code r"
    using C9_batch_errors_are_per_chart [OF a b] by blast
  from r have "Inr r = main two_charts_fail" by simp
  also note two_charts_fail_run
  finally have "errors r = [''Language Chart: boom'', ''Goals Tracker: Empty file generated'']"
    and "exit_code r = 1"
    by auto
  then show ?thesis using a b r len st by simp
qed

section \<open>Properties of the monthly statistics\<close>

lemma dt_ge_naive_aware:
  "tzinfo d = None \<Longrightarrow> tzinfo month_start \<noteq> None \<Longrightarrow> dt_ge d month_start = Inl TypeError"
  by (auto simp add: dt_ge_def)

lemma dt_ge_aware_aware:
  "tzinfo d \<noteq> None \<Longrightarrow> tzinfo month_start \<noteq> None \<Longrightarrow> \<exists>keep. dt_ge d month_start = Inr keep"
  by (auto simp add: dt_ge_def)

lemma count_since_raises:
  assumes "s \<in> set ss" and "fromisoformat s = Inr d" and "tzinfo d = None"
    and "tzinfo month_start \<noteq> None"
  shows "\<exists>e. count_since fromisoformat month_start ss = Inl e"
  using assms(1)
proof (induction ss)
  case Nil
  then show ?case by simp
next
  case (Cons t ts)
  show ?case
  proof (cases "t = s")
    case True
    then show ?thesis
      using assms(2-4) by (simp add: dt_ge_naive_aware)
  next
    case False
    then have "s \<in> set ts" using Cons.prems by simp
    then obtain e where "count_since fromisoformat month_start ts = Inl e"
      using Cons.IH by blast
    then show ?thesis
      by (simp split: sum.splits)
  qed
qed

lemma count_since_type_error:
  assumes "\<forall>t \<in> set ss. \<exists>d. fromisoformat t = Inr d"
    and "\<exists>t \<in> set ss. \<exists>d. fromisoformat t = Inr d \<and> tzinfo d = None"
    and "tzinfo month_start \<noteq> None"
  shows "count_since fromisoformat month_start ss = Inl TypeError"
  using assms(1,2)
proof (induction ss)
  case Nil
  then show ?case by simp
next
  case (Cons t ts)
  obtain d where d: "fromisoformat t = Inr d" using Cons.prems(1) by auto
  show ?case
  proof (cases "tzinfo d")
    case None
    then show ?thesis using d assms(3) by (simp add: dt_ge_naive_aware)
  next
    case (Some off)
    then obtain keep where k: "dt_ge d month_start = Inr keep"
      using dt_ge_aware_aware [of d month_start] assms(3) by auto
    have "\<exists>u \<in> set ts. \<exists>d'. fromisoformat u = Inr d' \<and> tzinfo d' = None"
      using Cons.prems(2) d Some by auto
    then have "count_since fromisoformat month_start ts = Inl TypeError"
      using Cons.IH Cons.prems(1) by simp
    then show ?thesis using d k by simp
  qed
qed

lemma count_since_returns:
  assumes "\<forall>t \<in> set ss. \<exists>d. fromisoformat t = Inr d \<and> tzinfo d \<noteq> None"
    and "tzinfo month_start \<noteq> None"
  shows "\<exists>n. count_since fromisoformat month_start ss = Inr n"
  using assms(1)
proof (induction ss)
  case Nil
  then show ?case by simp
next
  case (Cons t ts)
  obtain d where d: "fromisoformat t = Inr d" and aw: "tzinfo d \<noteq> None"
    using Cons.prems by auto
  obtain keep where k: "dt_ge d month_start = Inr keep"
    using dt_ge_aware_aware [OF aw assms(2)] by auto
  obtain n where "count_since fromisoformat month_start ts = Inr n"
    using Cons.IH Cons.prems by auto
  then show ?case using d k by simp
qed

lemma recent_entries_returns:
  assumes "\<forall>r \<in> set repos. \<forall>s. repo_pushed_at r = Some s \<and> s \<noteq> [] \<longrightarrow> (\<exists>d. fromisoformat s = Inr d)"
  shows "\<exists>es. recent_entries fromisoformat clk n repos = Inr es"
  using assms
proof (induction repos arbitrary: n)
  case Nil
  then show ?case by simp
next
  case (Cons r rs)
  have ih: "\<And>k. \<exists>es. recent_entries fromisoformat clk k rs = Inr es"
    using Cons.IH Cons.prems by simp
  show ?case
  proof (cases "repo_pushed_at r")
    case None
    then show ?thesis using ih [of n] by simp
  next
    case (Some s)
    show ?thesis
    proof (cases "s = []")
      case True
      then show ?thesis using Some ih [of n] by simp
    next
      case False
      then obtain d where "fromisoformat s = Inr d" using Cons.prems Some by auto
      moreover obtain es where "recent_entries fromisoformat clk (Suc n) rs = Inr es"
        using ih [of "Suc n"] by blast
      ultimately show ?thesis using Some False by (simp add: Let_def)
    qed
  qed
qed

text \<open>The timestamps \<open>calculate_monthly_stats\<close> reads, in the order it reads them.\<close>

definition monthly_stamps :: "commit list \<Rightarrow> pull_request list \<Rightarrow> issue list \<Rightarrow> string list" where
  "monthly_stamps commits prs issues =
     map commit_date commits @ map pr_created_at prs @ map issue_created_at issues"

lemma monthly_stats_raises:
  assumes "s \<in> set (monthly_stamps commits prs issues)"
    and "fromisoformat s = Inr d" and "tzinfo d = None"
  shows "\<exists>e. calculate_monthly_stats fromisoformat now commits prs issues = Inl e"
proof -
  let ?ms = "\<lparr>dt_fields = (dt_year now, dt_month now, 1, 0, 0, 0, 0), tzinfo = Some 0\<rparr>"
  have aw: "tzinfo ?ms \<noteq> None" by simp
  consider (c) "s \<in> set (map commit_date commits)"
    | (p) "s \<in> set (map pr_created_at prs)"
    | (i) "s \<in> set (map issue_created_at issues)"
    using assms(1) by (auto simp add: monthly_stamps_def)
  then show ?thesis
  proof cases
    case c
    then obtain e where "count_since fromisoformat ?ms (map commit_date commits) = Inl e"
      using count_since_raises [where fromisoformat = fromisoformat and s = s and d = d and month_start = ?ms, OF c assms(2) assms(3) aw] by blast
    then show ?thesis by (simp add: calculate_monthly_stats_def)
  next
    case p
    then obtain e where e: "count_since fromisoformat ?ms (map pr_created_at prs) = Inl e"
      using count_since_raises [where fromisoformat = fromisoformat and s = s and d = d and month_start = ?ms, OF p assms(2) assms(3) aw] by blast
    show ?thesis
      using e by (cases "count_since fromisoformat ?ms (map commit_date commits)")
        (simp_all add: calculate_monthly_stats_def)
  next
    case i
    then obtain e where e: "count_since fromisoformat ?ms (map issue_created_at issues) = Inl e"
      using count_since_raises [where fromisoformat = fromisoformat and s = s and d = d and month_start = ?ms, OF i assms(2) assms(3) aw] by blast
    show ?thesis
      using e
      by (cases "count_since fromisoformat ?ms (map commit_date commits)";
          cases "count_since fromisoformat ?ms (map pr_created_at prs)")
        (simp_all add: calculate_monthly_stats_def)
  qed
qed

lemma monthly_stats_returns:
  assumes "\<forall>t \<in> set (monthly_stamps commits prs issues).
             \<exists>d. fromisoformat t = Inr d \<and> tzinfo d \<noteq> None"
  shows "\<exists>r. calculate_monthly_stats fromisoformat now commits prs issues = Inr r"
proof -
  let ?ms = "\<lparr>dt_fields = (dt_year now, dt_month now, 1, 0, 0, 0, 0), tzinfo = Some 0\<rparr>"
  have aw: "tzinfo ?ms \<noteq> None" by simp
  have "\<exists>n. count_since fromisoformat ?ms (map commit_date commits) = Inr n"
    using assms by (intro count_since_returns [OF _ aw]) (simp add: monthly_stamps_def)
  moreover have "\<exists>n. count_since fromisoformat ?ms (map pr_created_at prs) = Inr n"
    using assms by (intro count_since_returns [OF _ aw]) (simp add: monthly_stamps_def)
  moreover have "\<exists>n. count_since fromisoformat ?ms (map issue_created_at issues) = Inr n"
    using assms by (intro count_since_returns [OF _ aw]) (simp add: monthly_stamps_def)
  ultimately show ?thesis
    by (auto simp add: calculate_monthly_stats_def)
qed

lemma count_since_parsed:
  assumes "\<forall>t \<in> set ss. \<exists>d. fromisoformat t = Inr d" and "tzinfo month_start \<noteq> None"
  shows "count_since fromisoformat month_start ss = Inl TypeError
         \<or> ((\<exists>n. count_since fromisoformat month_start ss = Inr n)
            \<and> (\<forall>t \<in> set ss. \<exists>d. fromisoformat t = Inr d \<and> tzinfo d \<noteq> None))"
proof (cases "\<exists>t \<in> set ss. \<exists>d. fromisoformat t = Inr d \<and> tzinfo d = None")
  case True
  then show ?thesis using count_since_type_error [OF assms(1) _ assms(2)] by blast
next
  case False
  then have aw: "\<forall>t \<in> set ss. \<exists>d. fromisoformat t = Inr d \<and> tzinfo d \<noteq> None"
    using assms(1) by fastforce
  then show ?thesis using count_since_returns [OF aw assms(2)] by blast
qed

lemma monthly_stats_type_error:
  assumes "\<forall>t \<in> set (monthly_stamps commits prs issues). \<exists>d. fromisoformat t = Inr d"
    and "\<exists>t \<in> set (monthly_stamps commits prs issues).
           \<exists>d. fromisoformat t = Inr d \<and> tzinfo d = None"
  shows "calculate_monthly_stats fromisoformat now commits prs issues = Inl TypeError"
proof -
  let ?ms = "\<lparr>dt_fields = (dt_year now, dt_month now, 1, 0, 0, 0, 0), tzinfo = Some 0\<rparr>"
  let ?cs = "map commit_date commits" and ?ps = "map pr_created_at prs"
    and ?is = "map issue_created_at issues"
  have aw: "tzinfo ?ms \<noteq> None" by simp
  have pc: "\<forall>t \<in> set ?cs. \<exists>d. fromisoformat t = Inr d"
    and pp: "\<forall>t \<in> set ?ps. \<exists>d. fromisoformat t = Inr d"
    and pi: "\<forall>t \<in> set ?is. \<exists>d. fromisoformat t = Inr d"
    using assms(1) by (simp_all add: monthly_stamps_def)
  note c = count_since_parsed [OF pc aw] and p = count_since_parsed [OF pp aw]
    and i = count_since_parsed [OF pi aw]
  have not_all_aware:
    "\<not> ((\<forall>t \<in> set ?cs. \<exists>d. fromisoformat t = Inr d \<and> tzinfo d \<noteq> None)
        \<and> (\<forall>t \<in> set ?ps. \<exists>d. fromisoformat t = Inr d \<and> tzinfo d \<noteq> None)
        \<and> (\<forall>t \<in> set ?is. \<exists>d. fromisoformat t = Inr d \<and> tzinfo d \<noteq> None))"
  proof
    assume a: "(\<forall>t \<in> set ?cs. \<exists>d. fromisoformat t = Inr d \<and> tzinfo d \<noteq> None)
        \<and> (\<forall>t \<in> set ?ps. \<exists>d. fromisoformat t = Inr d \<and> tzinfo d \<noteq> None)
        \<and> (\<forall>t \<in> set ?is. \<exists>d. fromisoformat t = Inr d \<and> tzinfo d \<noteq> None)"
    obtain t d where t: "t \<in> set (monthly_stamps commits prs issues)"
      and d: "fromisoformat t = Inr d" "tzinfo d = None"
      using assms(2) by blast
    from t have "t \<in> set ?cs \<or> t \<in> set ?ps \<or> t \<in> set ?is"
      by (auto simp add: monthly_stamps_def)
    then show False using a d by force
  qed
  show ?thesis
  proof (cases "count_since fromisoformat ?ms ?cs = Inl TypeError")
    case True
    then show ?thesis by (simp add: calculate_monthly_stats_def)
  next
    case False
    then obtain nc where nc: "count_since fromisoformat ?ms ?cs = Inr nc"
      and ac: "\<forall>t \<in> set ?cs. \<exists>d. fromisoformat t = Inr d \<and> tzinfo d \<noteq> None"
      using c by blast
    show ?thesis
    proof (cases "count_since fromisoformat ?ms ?ps = Inl TypeError")
      case True
      then show ?thesis using nc by (simp add: calculate_monthly_stats_def)
    next
      case False
      then obtain np where np: "count_since fromisoformat ?ms ?ps = Inr np"
        and ap: "\<forall>t \<in> set ?ps. \<exists>d. fromisoformat t = Inr d \<and> tzinfo d \<noteq> None"
        using p by blast
      have "count_since fromisoformat ?ms ?is = Inl TypeError"
        using i ac ap not_all_aware by blast
      then show ?thesis using nc np by (simp add: calculate_monthly_stats_def)
    qed
  qed
qed

text \<open>
  C10: if some commit, pull request or issue has a timestamp that parses to a datetime
  without an offset, \<open>calculate_monthly_stats\<close> raises, and when all the timestamps parse
  the exception is the \<open>TypeError\<close> of comparing it with the month start, which has an
  offset; if every timestamp parses to a datetime with an offset, it returns. The recency
  ranking returns for every timestamp that parses, with or without an offset.
\<close>

theorem C10_monthly_stats_naive_timestamp:
  "((\<exists>s \<in> set (monthly_stamps commits prs issues).
        \<exists>d. fromisoformat s = Inr d \<and> tzinfo d = None)
      \<longrightarrow> (\<exists>e. calculate_monthly_stats fromisoformat now commits prs issues = Inl e))
   \<and> ((\<forall>s \<in> set (monthly_stamps commits prs issues). \<exists>d. fromisoformat s = Inr d)
       \<and> (\<exists>s \<in> set (monthly_stamps commits prs issues).
             \<exists>d. fromisoformat s = Inr d \<and> tzinfo d = None)
      \<longrightarrow> calculate_monthly_stats fromisoformat now commits prs issues = Inl TypeError)
   \<and> ((\<forall>s \<in> set (monthly_stamps commits prs issues).
        \<exists>d. fromisoformat s = Inr d \<and> tzinfo d \<noteq> None)
      \<longrightarrow> (\<exists>r. calculate_monthly_stats fromisoformat now commits prs issues = Inr r))
   \<and> ((\<forall>r \<in> set repos. \<forall>s. repo_pushed_at r = Some s \<and> s \<noteq> []
                              \<longrightarrow> (\<exists>d. fromisoformat s = Inr d))
      \<longrightarrow> (\<exists>ranked. rank_by_recent_activity fromisoformat clk repos limit = Inr ranked))"
proof (intro conjI impI)
  assume "\<exists>s \<in> set (monthly_stamps commits prs issues).
            \<exists>d. fromisoformat s = Inr d \<and> tzinfo d = None"
  then show "\<exists>e. calculate_monthly_stats fromisoformat now commits prs issues = Inl e"
    using monthly_stats_raises by blast
next
  assume "(\<forall>s \<in> set (monthly_stamps commits prs issues). \<exists>d. fromisoformat s = Inr d)
       \<and> (\<exists>s \<in> set (monthly_stamps commits prs issues).
             \<exists>d. fromisoformat s = Inr d \<and> tzinfo d = None)"
  then show "calculate_monthly_stats fromisoformat now commits prs issues = Inl TypeError"
    using monthly_stats_type_error by blast
next
  assume "\<forall>s \<in> set (monthly_stamps commits prs issues).
            \<exists>d. fromisoformat s = Inr d \<and> tzinfo d \<noteq> None"
  then show "\<exists>r. calculate_monthly_stats fromisoformat now commits prs issues = Inr r"
    by (rule monthly_stats_returns)
next
  assume "\<forall>r \<in> set repos. \<forall>s. repo_pushed_at r = Some s \<and> s \<noteq> []
                              \<longrightarrow> (\<exists>d. fromisoformat s = Inr d)"
  then obtain es where "recent_entries fromisoformat clk 0 repos = Inr es"
    using recent_entries_returns by blast
  then show "\<exists>ranked. rank_by_recent_activity fromisoformat clk repos limit = Inr ranked"
    by (simp add: rank_by_recent_activity_def)
qed

definition naive_commit :: commit where
  "naive_commit = \<lparr>commit_repo = ''profile'', commit_date = ''2024-01-09T11:00:00''\<rparr>"

definition aware_commit :: commit where
  "aware_commit = \<lparr>commit_repo = ''profile'', commit_date = ''2024-01-09T13:00:00+00:00''\<rparr>"

definition naive_repo :: repo where
  "naive_repo =
     \<lparr>repo_name = ''profile'', repo_full_name = ''dev/profile'', repo_html_url = None,
      repo_language = Some ''Python'', repo_stars = 3, repo_forks = 0,
      repo_description = None, repo_pushed_at = Some ''2024-01-09T11:00:00'',
      repo_private = False\<rparr>"

lemma parse_naive_commit:
  "fromisoformat_seconds ''2024-01-09T11:00:00''
     = Inr \<lparr>dt_fields = (2024, 1, 9, 11, 0, 0, 0), tzinfo = None\<rparr>"
  by code_simp

lemma parse_aware_commit:
  "fromisoformat_seconds ''2024-01-09T13:00:00+00:00''
     = Inr \<lparr>dt_fields = (2024, 1, 9, 13, 0, 0, 0), tzinfo = Some 0\<rparr>"
  by code_simp

lemma monthly_naive_run:
  "calculate_monthly_stats fromisoformat_seconds (2024, 1, 10, 12, 0, 0, 0)
     [aware_commit, naive_commit] [] [] = Inl TypeError"
  by code_simp

lemma monthly_aware_run:
  "calculate_monthly_stats fromisoformat_seconds (2024, 1, 10, 12, 0, 0, 0)
     [aware_commit] [] []
   = Inr \<lparr>commits_this_month = 1, prs_this_month = 0, issues_this_month = 0,
          month = ''2024-01''\<rparr>"
  by code_simp

lemma recent_naive_run:
  "rank_by_recent_activity fromisoformat_seconds (\<lambda>_. (2024, 1, 10, 12, 0, 0, 0)) [naive_repo] 10
   = Inr [\<lparr>rec_name = ''profile'', rec_full_name = ''dev/profile'',
           rec_language = Some ''Python'', last_push = ''2024-01-09T11:00:00'',
           days_ago = 1, rec_private = False\<rparr>]"
  by code_simp

theorem C10_monthly_stats_naive_timestamp_witness:
  "fromisoformat_seconds (commit_date naive_commit)
     = Inr \<lparr>dt_fields = (2024, 1, 9, 11, 0, 0, 0), tzinfo = None\<rparr>
   \<and> fromisoformat_seconds (commit_date aware_commit)
     = Inr \<lparr>dt_fields = (2024, 1, 9, 13, 0, 0, 0), tzinfo = Some 0\<rparr>
   \<and> (\<exists>e. calculate_monthly_stats fromisoformat_seconds (2024, 1, 10, 12, 0, 0, 0)
             [aware_commit, naive_commit] [] [] = Inl e)
   \<and> calculate_monthly_stats fromisoformat_seconds (2024, 1, 10, 12, 0, 0, 0)
             [aware_commit, naive_commit] [] [] = Inl TypeError
   \<and> (\<exists>r. calculate_monthly_stats fromisoformat_seconds (2024, 1, 10, 12, 0, 0, 0)
             [aware_commit] [] [] = Inr r)
   \<and> (\<exists>ranked. rank_by_recent_activity fromisoformat_seconds
                  (\<lambda>_. (2024, 1, 10, 12, 0, 0, 0)) [naive_repo] 10 = Inr ranked)"
proof -
  have h1: "\<exists>s \<in> set (monthly_stamps [aware_commit, naive_commit] [] []).
              \<exists>d. fromisoformat_seconds s = Inr d \<and> tzinfo d = None"
    by (simp add: monthly_stamps_def naive_commit_def aware_commit_def parse_naive_commit)
  have h0: "\<forall>s \<in> set (monthly_stamps [aware_commit, naive_commit] [] []).
              \<exists>d. fromisoformat_seconds s = Inr d"
    by (simp add: monthly_stamps_def naive_commit_def aware_commit_def parse_naive_commit
        parse_aware_commit)
  have h2: "\<forall>s \<in> set (monthly_stamps [aware_commit] [] []).
              \<exists>d. fromisoformat_seconds s = Inr d \<and> tzinfo d \<noteq> None"
    by (simp add: monthly_stamps_def aware_commit_def parse_aware_commit)
  have h3: "\<forall>r \<in> set [naive_repo]. \<forall>s. repo_pushed_at r = Some s \<and> s \<noteq> []
                              \<longrightarrow> (\<exists>d. fromisoformat_seconds s = Inr d)"
    by (simp add: naive_repo_def parse_naive_commit)
  have c1: "\<exists>e. calculate_monthly_stats fromisoformat_seconds (2024, 1, 10, 12, 0, 0, 0)
             [aware_commit, naive_commit] [] [] = Inl e"
    using h1 C10_monthly_stats_naive_timestamp
      [of "[aware_commit, naive_commit]" "[]" "[]" fromisoformat_seconds] by blast
  have c0: "calculate_monthly_stats fromisoformat_seconds (2024, 1, 10, 12, 0, 0, 0)
             [aware_commit, naive_commit] [] [] = Inl TypeError"
    using h0 h1 C10_monthly_stats_naive_timestamp
      [of "[aware_commit, naive_commit]" "[]" "[]" fromisoformat_seconds] by blast
  have c2: "\<exists>r. calculate_monthly_stats fromisoformat_seconds (2024, 1, 10, 12, 0, 0, 0)
             [aware_commit] [] [] = Inr r"
    using h2 C10_monthly_stats_naive_timestamp
      [of "[aware_commit]" "[]" "[]" fromisoformat_seconds] by blast
  have c3: "\<exists>ranked. rank_by_recent_activity fromisoformat_seconds
                  (\<lambda>_. (2024, 1, 10, 12, 0, 0, 0)) [naive_repo] 10 = Inr ranked"
    using h3 C10_monthly_stats_naive_timestamp
      [of _ _ _ fromisoformat_seconds _ "[naive_repo]"] by blast
  have p1: "fromisoformat_seconds (commit_date naive_commit)
     = Inr \<lparr>dt_fields = (2024, 1, 9, 11, 0, 0, 0), tzinfo = None\<rparr>"
    by (simp add: naive_commit_def parse_naive_commit)
  have p2: "fromisoformat_seconds (commit_date aware_commit)
     = Inr \<lparr>dt_fields = (2024, 1, 9, 13, 0, 0, 0), tzinfo = Some 0\<rparr>"
    by (simp add: aware_commit_def parse_aware_commit)
  show ?thesis using p1 p2 c0 c1 c2 c3 by blast
qed

section \<open>Properties of the rankings\<close>

lemma sort_desc_sorted: "sorted_wrt (\<lambda>a b. key a \<ge> key b) (sort_desc key xs)"
proof -
  have "sorted (map key (sort_key key (rev xs)))"
    by (rule sorted_sort_key)
  then have "sorted_wrt (\<lambda>a b. key a \<le> key b) (sort_key key (rev xs))"
    by (simp add: sorted_map)
  then show ?thesis
    by (simp add: sort_desc_def sorted_wrt_rev)
qed

lemma set_sort_desc: "set (sort_desc key xs) = set xs"
  by (simp add: sort_desc_def)

lemma slice_to_sorted: "sorted_wrt P xs \<Longrightarrow> sorted_wrt P (slice_to limit xs)"
  by (simp add: slice_to_def sorted_wrt_take)

lemma set_slice_to: "set (slice_to limit xs) \<subseteq> set xs"
  by (simp add: slice_to_def set_take_subset)

lemma length_slice_to: "0 \<le> limit \<Longrightarrow> int (length (slice_to limit xs)) \<le> limit"
  by (simp add: slice_to_def)

lemma ranked_sorted:
  "sorted_wrt (\<lambda>a b. key a \<ge> key b) (slice_to limit (sort_desc key xs))"
  by (rule slice_to_sorted) (rule sort_desc_sorted)

lemma ranked_subset: "set (slice_to limit (sort_desc key xs)) \<subseteq> set xs"
  using set_slice_to [of limit "sort_desc key xs"] by (simp add: set_sort_desc)

definition four_repos :: "repo list" where
  "four_repos =
     map (\<lambda>(n, s). \<lparr>repo_name = n, repo_full_name = ''dev/'' @ n, repo_html_url = None,
                     repo_language = Some ''Python'', repo_stars = s, repo_forks = 0,
                     repo_description = None, repo_pushed_at = None, repo_private = False\<rparr>)
       [(''alpha'', 0), (''beta'', 5), (''gamma'', 5), (''delta'', 12)]"

text \<open>
  C5, as stated, fails for a negative limit: the slice \<open>ranked[:limit]\<close> then drops the
  last entries instead of keeping the first ones. With stars 0, 5, 5, 12 and limit -1,
  \<open>rank_by_stars\<close> returns two entries, which is more than the limit.
\<close>

theorem C5_negative_limit:
  "map stars (rank_by_stars four_repos (- 1)) = [12, 5]
   \<and> \<not> int (length (rank_by_stars four_repos (- 1))) \<le> - 1"
  by code_simp

text \<open>
  C5, amended: for every input and every limit that is not negative, each ranking
  (activity, stars, commits, recent activity) returns at most \<open>limit\<close> entries; for every
  limit, the list returned is in non-increasing order of the ranking's key: the activity
  score, the stars, the commit count, and for the recent-activity ranking the last-push
  timestamp text; the activity ranking holds only entries of the given repositories with
  a score above 0 (the score being commits + pull requests + issues of the repository),
  the stars ranking only entries with stars above 0, the commits ranking only entries
  with a commit count above 0.
\<close>

theorem C5_rankings_limited_and_sorted:
  "(0 \<le> limit \<longrightarrow>
       int (length (rank_by_activity repos commits prs issues limit)) \<le> limit
     \<and> int (length (rank_by_stars repos limit)) \<le> limit
     \<and> int (length (rank_by_commits repos commits limit)) \<le> limit)
   \<and> sorted_wrt (\<lambda>a b. score a \<ge> score b) (rank_by_activity repos commits prs issues limit)
   \<and> sorted_wrt (\<lambda>a b. stars a \<ge> stars b) (rank_by_stars repos limit)
   \<and> sorted_wrt (\<lambda>a b. commit_count a \<ge> commit_count b) (rank_by_commits repos commits limit)
   \<and> (\<forall>e \<in> set (rank_by_activity repos commits prs issues limit).
         score e > 0
         \<and> (\<exists>r \<in> set repos. e = activity_entry commits prs issues r
               \<and> score e = count_repo (repo_name r) (map commit_repo commits)
                           + count_repo (repo_name r) (map pr_repo prs)
                           + count_repo (repo_name r) (map issue_repo issues)))
   \<and> (\<forall>e \<in> set (rank_by_stars repos limit).
         stars e > 0 \<and> (\<exists>r \<in> set repos. e = star_entry r))
   \<and> (\<forall>e \<in> set (rank_by_commits repos commits limit).
         commit_count e > 0 \<and> (\<exists>r \<in> set repos. e = commit_entry commits r))
   \<and> (rank_by_recent_activity fromisoformat clk repos limit = Inr recent \<longrightarrow>
         (0 \<le> limit \<longrightarrow> int (length recent) \<le> limit)
         \<and> sorted_wrt (\<lambda>a b. last_push a \<ge> last_push b) recent)"
proof (intro conjI impI ballI)
  assume "0 \<le> limit"
  then show "int (length (rank_by_activity repos commits prs issues limit)) \<le> limit"
    by (simp add: rank_by_activity_def length_slice_to)
next
  assume "0 \<le> limit"
  then show "int (length (rank_by_stars repos limit)) \<le> limit"
    by (simp add: rank_by_stars_def length_slice_to)
next
  assume "0 \<le> limit"
  then show "int (length (rank_by_commits repos commits limit)) \<le> limit"
    by (simp add: rank_by_commits_def length_slice_to)
next
  show "sorted_wrt (\<lambda>a b. score a \<ge> score b) (rank_by_activity repos commits prs issues limit)"
    by (simp add: rank_by_activity_def ranked_sorted)
next
  show "sorted_wrt (\<lambda>a b. stars a \<ge> stars b) (rank_by_stars repos limit)"
    by (simp add: rank_by_stars_def ranked_sorted)
next
  show "sorted_wrt (\<lambda>a b. commit_count a \<ge> commit_count b) (rank_by_commits repos commits limit)"
    by (simp add: rank_by_commits_def ranked_sorted)
next
  fix e assume "e \<in> set (rank_by_activity repos commits prs issues limit)"
  then have e: "e \<in> set (filter (\<lambda>e. score e > 0) (map (activity_entry commits prs issues) repos))"
    using ranked_subset by (fastforce simp add: rank_by_activity_def)
  then show "score e > 0" by simp
  from e obtain r where "r \<in> set repos" and "e = activity_entry commits prs issues r"
    by auto
  then show "\<exists>r \<in> set repos. e = activity_entry commits prs issues r
               \<and> score e = count_repo (repo_name r) (map commit_repo commits)
                           + count_repo (repo_name r) (map pr_repo prs)
                           + count_repo (repo_name r) (map issue_repo issues)"
    by (auto simp add: activity_entry_def Let_def)
next
  fix e assume "e \<in> set (rank_by_stars repos limit)"
  then have e: "e \<in> set (map star_entry (filter (\<lambda>r. repo_stars r > 0) repos))"
    using ranked_subset by (fastforce simp add: rank_by_stars_def)
  then show "stars e > 0" by (auto simp add: star_entry_def)
  from e show "\<exists>r \<in> set repos. e = star_entry r" by auto
next
  fix e assume "e \<in> set (rank_by_commits repos commits limit)"
  then have e: "e \<in> set (filter (\<lambda>e. commit_count e > 0) (map (commit_entry commits) repos))"
    using ranked_subset by (fastforce simp add: rank_by_commits_def)
  then show "commit_count e > 0" by simp
  from e show "\<exists>r \<in> set repos. e = commit_entry commits r" by auto
next
  assume "rank_by_recent_activity fromisoformat clk repos limit = Inr recent" and "0 \<le> limit"
  then show "int (length recent) \<le> limit"
    by (auto simp add: rank_by_recent_activity_def length_slice_to split: sum.splits)
next
  assume "rank_by_recent_activity fromisoformat clk repos limit = Inr recent"
  then show "sorted_wrt (\<lambda>a b. last_push a \<ge> last_push b) recent"
    by (auto simp add: rank_by_recent_activity_def ranked_sorted split: sum.splits)
qed

definition pushed_repos :: "repo list" where
  "pushed_repos =
     map (\<lambda>(n, p). \<lparr>repo_name = n, repo_full_name = ''dev/'' @ n, repo_html_url = None,
                     repo_language = Some ''Python'', repo_stars = 1, repo_forks = 0,
                     repo_description = None, repo_pushed_at = p, repo_private = False\<rparr>)
       [(''alpha'', Some ''2024-01-03T10:00:00+00:00''), (''beta'', None),
        (''gamma'', Some ''2024-01-09T10:00:00+00:00''),
        (''delta'', Some ''2024-01-05T10:00:00+00:00'')]"

lemma pushed_repos_run:
  "rank_by_recent_activity fromisoformat_seconds (\<lambda>_. (2024, 1, 10, 12, 0, 0, 0)) pushed_repos 2
     = Inr [\<lparr>rec_name = ''gamma'', rec_full_name = ''dev/gamma'', rec_language = Some ''Python'',
             last_push = ''2024-01-09T10:00:00+00:00'', days_ago = 1, rec_private = False\<rparr>,
            \<lparr>rec_name = ''delta'', rec_full_name = ''dev/delta'', rec_language = Some ''Python'',
             last_push = ''2024-01-05T10:00:00+00:00'', days_ago = 5, rec_private = False\<rparr>]"
  by code_simp

theorem C5_rankings_limited_and_sorted_witness:
  "(0::int) \<le> 2
   \<and> map stars (rank_by_stars four_repos 2) = [12, 5]
   \<and> int (length (rank_by_stars four_repos 2)) \<le> 2
   \<and> sorted_wrt (\<lambda>a b. stars a \<ge> stars b) (rank_by_stars four_repos 2)
   \<and> (\<exists>recent. rank_by_recent_activity fromisoformat_seconds (\<lambda>_. (2024, 1, 10, 12, 0, 0, 0))
                  pushed_repos 2 = Inr recent
         \<and> map rec_name recent = [''gamma'', ''delta'']
         \<and> int (length recent) \<le> 2
         \<and> sorted_wrt (\<lambda>a b. last_push a \<ge> last_push b) recent)"
proof -
  have s: "map stars (rank_by_stars four_repos 2) = [12, 5]"
    by code_simp
  obtain recent where r: "rank_by_recent_activity fromisoformat_seconds
        (\<lambda>_. (2024, 1, 10, 12, 0, 0, 0)) pushed_repos 2 = Inr recent"
    and n: "map rec_name recent = [''gamma'', ''delta'']"
    using pushed_repos_run by simp
  note t = C5_rankings_limited_and_sorted [of 2 four_repos "[]" "[]" "[]"
      fromisoformat_seconds "\<lambda>_. (2024, 1, 10, 12, 0, 0, 0)" recent]
  note u = C5_rankings_limited_and_sorted [of 2 pushed_repos "[]" "[]" "[]"
      fromisoformat_seconds "\<lambda>_. (2024, 1, 10, 12, 0, 0, 0)" recent]
  have a: "int (length (rank_by_stars four_repos 2)) \<le> 2"
    and b: "sorted_wrt (\<lambda>a b. stars a \<ge> stars b) (rank_by_stars four_repos 2)"
    using t by simp_all
  have c: "int (length recent) \<le> 2"
    and d: "sorted_wrt (\<lambda>a b. last_push a \<ge> last_push b) recent"
    using u r by simp_all
  show ?thesis using s a b c d r n by (intro conjI exI [of _ recent]) simp_all
qed

section \<open>General properties of the streak calculator\<close>

lemma current_run_shift: "current_run ds (c + 1) = current_run ds c + 1"
  by (induction ds c rule: current_run.induct) auto

lemma temp_streak_positive: "1 \<le> t \<Longrightarrow> 1 \<le> snd (longest_run ds l t)"
  by (induction ds l t rule: longest_run.induct) auto

text \<open>One more date at the end of the list is one more round of the forward loop.\<close>

lemma longest_run_snoc:
  "longest_run (ds @ [y, x]) l t =
     (case longest_run (ds @ [y]) l t of
        (l', t') \<Rightarrow> if days_between x y = 1 then (max l' (t' + 1), t' + 1) else (l', 1))"
proof (induction ds arbitrary: l t)
  case Nil
  show ?case by simp
next
  case (Cons a ds)
  show ?case
  proof (cases ds)
    case Nil
    then show ?thesis using Cons.IH by simp
  next
    case (Cons b ds')
    then show ?thesis using Cons.IH by simp
  qed
qed

text \<open>
  The backward loop counts the final run of consecutive days, which is what
  \<open>temp_streak\<close> holds when the forward loop ends.
\<close>

lemma current_run_is_final_temp:
  "ds \<noteq> [] \<Longrightarrow> current_run (rev ds) 1 = snd (longest_run ds l 1)"
proof (induction ds rule: rev_induct)
  case Nil
  then show ?case by simp
next
  case (snoc x ds)
  show ?case
  proof (cases ds rule: rev_cases)
    case Nil
    then show ?thesis by simp
  next
    case (snoc ds' y)
    have ih: "current_run (rev (ds' @ [y])) 1 = snd (longest_run (ds' @ [y]) l 1)"
      using snoc.IH snoc by simp
    have "current_run (rev (ds' @ [y, x])) 1
            = (if days_between x y = 1 then current_run (y # rev ds') 1 + 1 else 1)"
      using current_run_shift [of "y # rev ds'" 1] by simp
    also have "\<dots> = (if days_between x y = 1 then snd (longest_run (ds' @ [y]) l 1) + 1 else 1)"
      using ih by simp
    also have "\<dots> = snd (longest_run (ds' @ [y, x]) l 1)"
      by (simp add: longest_run_snoc split: prod.splits)
    finally show ?thesis using snoc by simp
  qed
qed

lemma last_sorted_is_Max:
  "sorted xs \<Longrightarrow> xs \<noteq> [] \<Longrightarrow> last xs = Max (set xs)"
proof (induction xs)
  case Nil
  then show ?case by simp
next
  case (Cons x xs)
  show ?case
  proof (cases "xs = []")
    case True
    then show ?thesis by simp
  next
    case False
    have "\<forall>y \<in> set xs. x \<le> y" using Cons.prems by simp
    moreover have "hd xs \<in> set xs" using False by simp
    ultimately have "x \<le> hd xs" by blast
    moreover have "hd xs \<le> Max (set xs)" using False by simp
    ultimately have "x \<le> Max (set xs)" by (rule order_trans)
    then have "Max (set (x # xs)) = Max (set xs)"
      using False by (simp add: max_absorb2)
    moreover have "last (x # xs) = Max (set xs)"
      using Cons False by simp
    ultimately show ?thesis by simp
  qed
qed

lemma dates_of_length: "dates_of fromisoformat commits = Inr ds \<Longrightarrow> length ds = length commits"
  by (induction commits arbitrary: ds) (auto split: sum.splits)

text \<open>What \<open>calculate_activity_streak\<close> returns, with its local variables spelled out.\<close>

lemma streak_unfold:
  assumes "commits \<noteq> []" and "dates_of fromisoformat commits = Inr ds"
  shows "calculate_activity_streak fromisoformat today commits =
     Inr \<lparr>current = (if days_between today (Max (set ds)) \<le> 1
                     then current_run (rev (sort (remdups (sort ds)))) 1 else 0),
          longest = max (fst (longest_run (sort (remdups (sort ds))) 0 1))
                        (snd (longest_run (sort (remdups (sort ds))) 0 1))\<rparr>"
proof -
  let ?u = "sort (remdups (sort ds))"
  have "ds \<noteq> []" using assms dates_of_length by fastforce
  then have ne: "?u \<noteq> []" by (metis set_empty set_remdups set_sort)
  have "last ?u = Max (set ?u)"
    using ne by (intro last_sorted_is_Max) simp_all
  then have l: "last ?u = Max (set ds)" by simp
  show ?thesis
    using assms ne l
    by (simp add: calculate_activity_streak_def Let_def split: prod.splits)
qed

lemma streak_longest_ge_current:
  assumes "calculate_activity_streak fromisoformat today commits = Inr r"
  shows "current r \<le> longest r"
proof (cases "commits = []")
  case True
  then show ?thesis using assms by (auto simp add: calculate_activity_streak_def)
next
  case False
  then obtain ds where ds: "dates_of fromisoformat commits = Inr ds"
    using assms by (auto simp add: calculate_activity_streak_def split: sum.splits)
  let ?u = "sort (remdups (sort ds))"
  have "ds \<noteq> []" using False ds dates_of_length by fastforce
  then have ne: "?u \<noteq> []" by (metis set_empty set_remdups set_sort)
  have c: "current_run (rev ?u) 1 = snd (longest_run ?u 0 1)"
    using ne by (rule current_run_is_final_temp)
  have p: "1 \<le> snd (longest_run ?u 0 1)"
    by (rule temp_streak_positive) simp
  show ?thesis
    using assms streak_unfold [OF False ds, of today] c p by auto
qed

lemma streak_longest_positive:
  assumes "calculate_activity_streak fromisoformat today commits = Inr r" and "commits \<noteq> []"
  shows "1 \<le> longest r"
proof -
  obtain ds where ds: "dates_of fromisoformat commits = Inr ds"
    using assms by (auto simp add: calculate_activity_streak_def split: sum.splits)
  have "1 \<le> snd (longest_run (sort (remdups (sort ds))) 0 1)"
    by (rule temp_streak_positive) simp
  then show ?thesis
    using assms(1) streak_unfold [OF assms(2) ds, of today] by auto
qed

lemma streak_current_zero:
  assumes "calculate_activity_streak fromisoformat today commits = Inr r"
    and "dates_of fromisoformat commits = Inr ds" and "commits \<noteq> []"
    and "1 < days_between today (Max (set ds))"
  shows "current r = 0"
  using assms(1,4) streak_unfold [OF assms(3) assms(2), of today] by auto

text \<open>
  C3, as stated, fails in its last part: there is no set of commit dates for which the
  longest streak is less than the current streak.
\<close>

theorem C3_longest_never_below_current:
  "\<not> (\<exists>fromisoformat today commits r.
         calculate_activity_streak fromisoformat today commits = Inr r
         \<and> longest r < current r)"
  using streak_longest_ge_current by fastforce

text \<open>
  C3, amended: whenever the streak calculator returns, the longest streak is at least 1
  for every non-empty list of commits; the current streak is 0 whenever the most recent
  active date is more than 1 day before today (UTC); and the longest streak is at least
  the current streak for all inputs.
\<close>

theorem C3_streak_bounds:
  assumes "calculate_activity_streak fromisoformat today commits = Inr r"
  shows "(commits \<noteq> [] \<longrightarrow> 1 \<le> longest r)
         \<and> (commits \<noteq> [] \<and> dates_of fromisoformat commits = Inr ds
              \<and> 1 < days_between today (Max (set ds)) \<longrightarrow> current r = 0)
         \<and> current r \<le> longest r"
  using assms streak_longest_positive streak_current_zero streak_longest_ge_current
  by blast

definition stale_commits :: "commit list" where
  "stale_commits =
     commits_on [''2024-01-02T18:40:00+00:00'', ''2024-01-01T09:15:00+00:00'',
                 ''2024-01-07T07:05:00+00:00'', ''2024-01-07T21:30:00+00:00'']"

lemma stale_commits_run:
  "calculate_activity_streak fromisoformat_seconds (2024, 1, 10) stale_commits
     = Inr \<lparr>current = 0, longest = 2\<rparr>
   \<and> dates_of fromisoformat_seconds stale_commits
     = Inr [(2024, 1, 2), (2024, 1, 1), (2024, 1, 7), (2024, 1, 7)]
   \<and> days_between (2024, 1, 10) (2024, 1, 7) = 3
   \<and> stale_commits \<noteq> []"
  by code_simp

theorem C3_streak_bounds_witness:
  "calculate_activity_streak fromisoformat_seconds (2024, 1, 10) stale_commits
     = Inr \<lparr>current = 0, longest = 2\<rparr>
   \<and> stale_commits \<noteq> []
   \<and> dates_of fromisoformat_seconds stale_commits
     = Inr [(2024, 1, 2), (2024, 1, 1), (2024, 1, 7), (2024, 1, 7)]
   \<and> 1 < days_between (2024, 1, 10)
           (Max (set [(2024, 1, 2), (2024, 1, 1), (2024, 1, 7), (2024, 1, 7 :: int)]))
   \<and> 1 \<le> longest \<lparr>current = 0, longest = 2\<rparr>
   \<and> current \<lparr>current = 0, longest = 2\<rparr> = 0
   \<and> current \<lparr>current = 0, longest = 2\<rparr> \<le> longest \<lparr>current = 0, longest = 2\<rparr>"
proof -
  have m: "Max (set [(2024, 1, 2), (2024, 1, 1), (2024, 1, 7), (2024, 1, 7 :: int)])
             = ((2024, 1, 7) :: date)"
    by simp
  have g: "1 < days_between (2024, 1, 10)
           (Max (set [(2024, 1, 2), (2024, 1, 1), (2024, 1, 7), (2024, 1, 7 :: int)]))"
    using stale_commits_run by (simp only: m)
  show ?thesis
    using stale_commits_run g
      C3_streak_bounds [of fromisoformat_seconds "(2024, 1, 10)" stale_commits
        "\<lparr>current = 0, longest = 2\<rparr>" "[(2024, 1, 2), (2024, 1, 1), (2024, 1, 7), (2024, 1, 7)]"]
    by blast
qed

section \<open>Properties of the daily statistics\<close>

text \<open>The date a commit's timestamp is written with, as text; \<open>None\<close> if it does not parse.\<close>

definition written_day :: "iso_parser \<Rightarrow> commit \<Rightarrow> string option" where
  "written_day fromisoformat c =
     (case fromisoformat (commit_date c) of
        Inl e \<Rightarrow> None
      | Inr d \<Rightarrow> Some (date_isoformat (date_of d)))"

text \<open>The number of commits written with a given date.\<close>

definition commits_written_on :: "iso_parser \<Rightarrow> commit list \<Rightarrow> string \<Rightarrow> int" where
  "commits_written_on fromisoformat commits day =
     int (length (filter (\<lambda>c. written_day fromisoformat c = Some day) commits))"

text \<open>The count a dictionary of counters holds for a key, 0 for a key it does not have.\<close>

definition counter :: "(string \<times> int) list \<Rightarrow> string \<Rightarrow> int" where
  "counter kvs k = (case map_of kvs k of None \<Rightarrow> 0 | Some c \<Rightarrow> c)"

definition counters_ok :: "(string \<times> int) list \<Rightarrow> bool" where
  "counters_ok kvs \<longleftrightarrow> distinct (map fst kvs) \<and> (\<forall>p \<in> set kvs. 0 < snd p)"

lemma map_of_bump:
  "map_of (bump k kvs) k' = (if k' = k then Some (counter kvs k + 1) else map_of kvs k')"
  by (induction kvs) (auto simp add: counter_def)

lemma keys_bump: "fst ` set (bump k kvs) = insert k (fst ` set kvs)"
proof (induction kvs)
  case Nil
  show ?case by simp
next
  case (Cons p kvs)
  obtain k' c where p: "p = (k', c)" by (cases p)
  show ?case
    using Cons.IH p by (cases "k = k'") (simp_all add: insert_commute)
qed

lemma count_by_date_parses:
  assumes "count_by_date fromisoformat commits acc = Inr res" and "c \<in> set commits"
  shows "\<exists>d. fromisoformat (commit_date c) = Inr d"
  using assms
proof (induction commits arbitrary: acc)
  case Nil
  then show ?case by simp
next
  case (Cons x xs)
  obtain d where d: "fromisoformat (commit_date x) = Inr d"
    using Cons.prems(1) by (auto split: sum.splits)
  show ?case
  proof (cases "c = x")
    case True
    then show ?thesis using d by blast
  next
    case False
    then have "c \<in> set xs" using Cons.prems(2) by simp
    moreover have "count_by_date fromisoformat xs (bump (date_isoformat (date_of d)) acc) = Inr res"
      using Cons.prems(1) d by simp
    ultimately show ?thesis using Cons.IH by blast
  qed
qed

lemma counters_ok_bump:
  assumes "counters_ok kvs"
  shows "counters_ok (bump k kvs)"
  using assms
proof (induction kvs)
  case Nil
  then show ?case by (simp add: counters_ok_def)
next
  case (Cons p kvs)
  obtain k' c where p: "p = (k', c)" by (cases p)
  have ok: "counters_ok kvs" using Cons.prems by (simp add: counters_ok_def)
  show ?case
  proof (cases "k = k'")
    case True
    then show ?thesis using Cons.prems p by (auto simp add: counters_ok_def)
  next
    case False
    have "counters_ok (bump k kvs)" using Cons.IH ok by simp
    moreover have "k' \<notin> fst ` set (bump k kvs)"
      using Cons.prems p False by (simp add: keys_bump counters_ok_def)
    ultimately show ?thesis
      using Cons.prems p False by (auto simp add: counters_ok_def)
  qed
qed

lemma counter_bump: "counter (bump k kvs) k' = counter kvs k' + (if k' = k then 1 else 0)"
  by (simp add: counter_def map_of_bump)

lemma count_by_date_counts:
  assumes "count_by_date fromisoformat commits acc = Inr res" and "counters_ok acc"
  shows "counters_ok res
         \<and> (\<forall>day. counter res day = counter acc day + commits_written_on fromisoformat commits day)"
  using assms
proof (induction commits arbitrary: acc)
  case Nil
  then show ?case by (simp add: commits_written_on_def)
next
  case (Cons c cs)
  obtain d where d: "fromisoformat (commit_date c) = Inr d"
    using Cons.prems(1) by (auto split: sum.splits)
  let ?k = "date_isoformat (date_of d)"
  have rest: "count_by_date fromisoformat cs (bump ?k acc) = Inr res"
    using Cons.prems(1) d by simp
  have ok: "counters_ok (bump ?k acc)"
    using Cons.prems(2) by (rule counters_ok_bump)
  have w: "written_day fromisoformat c = Some ?k"
    using d by (simp add: written_day_def)
  have ih: "counters_ok res
      \<and> (\<forall>day. counter res day
                 = counter (bump ?k acc) day + commits_written_on fromisoformat cs day)"
    using Cons.IH [OF rest ok] .
  have "\<forall>day. counter res day
                 = counter acc day + commits_written_on fromisoformat (c # cs) day"
    using ih w by (auto simp add: counter_bump commits_written_on_def)
  then show ?case using ih by simp
qed

lemma counters_ok_lookup:
  assumes "counters_ok kvs"
  shows "map_of kvs k = (if counter kvs k = 0 then None else Some (counter kvs k))"
proof (cases "map_of kvs k")
  case None
  then show ?thesis by (simp add: counter_def)
next
  case (Some c)
  then have "(k, c) \<in> set kvs" by (rule map_of_SomeD)
  then have "0 < c" using assms by (auto simp add: counters_ok_def)
  then show ?thesis using Some by (simp add: counter_def)
qed

lemma map_of_sort:
  assumes "distinct (map fst kvs)"
  shows "distinct (map fst (sort kvs)) \<and> map_of (sort kvs) = map_of kvs"
proof -
  have "distinct kvs \<and> inj_on fst (set kvs)"
    using assms by (simp add: distinct_map)
  then have d: "distinct (map fst (sort kvs))"
    by (simp add: distinct_map)
  then show ?thesis
    using assms map_of_inject_set [of "sort kvs" kvs] by simp
qed

lemma sorted_keys: "sorted (map fst (sort (kvs :: (string \<times> int) list)))"
proof -
  have "sorted_wrt (\<le>) (sort kvs)" by simp
  then have "sorted_wrt (\<lambda>p q. fst p \<le> fst q) (sort kvs)"
    by (rule sorted_wrt_mono_rel [rotated]) (auto simp add: less_eq_prod_def)
  then show ?thesis by (simp add: sorted_map)
qed

definition late_evening_commit :: commit where
  "late_evening_commit = \<lparr>commit_repo = ''profile'', commit_date = ''2024-01-01T23:30:00-05:00''\<rparr>"

definition early_morning_commit :: commit where
  "early_morning_commit = \<lparr>commit_repo = ''profile'', commit_date = ''2024-01-02T04:30:00+00:00''\<rparr>"

lemma parse_late_evening:
  "fromisoformat_seconds (commit_date late_evening_commit)
     = Inr \<lparr>dt_fields = (2024, 1, 1, 23, 30, 0, 0), tzinfo = Some (- 18000000000)\<rparr>"
  by code_simp

lemma parse_early_morning:
  "fromisoformat_seconds (commit_date early_morning_commit)
     = Inr \<lparr>dt_fields = (2024, 1, 2, 4, 30, 0, 0), tzinfo = Some 0\<rparr>"
  by code_simp

lemma same_instant:
  "utc_micros \<lparr>dt_fields = (2024, 1, 1, 23, 30, 0, 0), tzinfo = Some (- 18000000000)\<rparr>
     = utc_micros \<lparr>dt_fields = (2024, 1, 2, 4, 30, 0, 0), tzinfo = Some 0\<rparr>"
  by code_simp

lemma two_buckets:
  "calculate_daily_stats fromisoformat_seconds [late_evening_commit, early_morning_commit]
     = Inr \<lparr>commits_per_day = [(''2024-01-01'', 1), (''2024-01-02'', 1)],
            total_days_active = 2\<rparr>"
  by code_simp

text \<open>
  C7, as stated, fails: the two commits below are made at the same instant, one written
  with the offset -05:00 and one with the offset +00:00, and the daily statistics count
  them under two different dates, 2024-01-01 and 2024-01-02. The instant is on
  2024-01-02 in UTC.
\<close>

theorem C7_same_instant_two_dates:
  "fromisoformat_seconds (commit_date late_evening_commit)
     = Inr \<lparr>dt_fields = (2024, 1, 1, 23, 30, 0, 0), tzinfo = Some (- 18000000000)\<rparr>
   \<and> fromisoformat_seconds (commit_date early_morning_commit)
     = Inr \<lparr>dt_fields = (2024, 1, 2, 4, 30, 0, 0), tzinfo = Some 0\<rparr>
   \<and> utc_micros \<lparr>dt_fields = (2024, 1, 1, 23, 30, 0, 0), tzinfo = Some (- 18000000000)\<rparr>
     = utc_micros \<lparr>dt_fields = (2024, 1, 2, 4, 30, 0, 0), tzinfo = Some 0\<rparr>
   \<and> calculate_daily_stats fromisoformat_seconds [late_evening_commit, early_morning_commit]
     = Inr \<lparr>commits_per_day = [(''2024-01-01'', 1), (''2024-01-02'', 1)],
            total_days_active = 2\<rparr>"
  using parse_late_evening parse_early_morning same_instant two_buckets by simp

text \<open>
  C7, amended: for every list of commit records whose timestamps parse, the daily
  statistics assign each commit to the calendar date written in its timestamp, with no
  conversion between offsets: the count listed for a date is the number of commits
  written with that date, a date with no such commit is not listed, and the dates are
  listed once each in ascending order. For a timestamp written in UTC this is its
  calendar date in UTC.
\<close>

theorem C7_buckets_by_written_date:
  assumes "calculate_daily_stats fromisoformat commits = Inr r"
  shows "(\<forall>day. map_of (commits_per_day r) day
                  = (if commits_written_on fromisoformat commits day = 0 then None
                     else Some (commits_written_on fromisoformat commits day)))
         \<and> sorted (map fst (commits_per_day r))
         \<and> distinct (map fst (commits_per_day r))
         \<and> total_days_active r = int (length (commits_per_day r))
         \<and> (\<forall>c \<in> set commits. \<exists>d. fromisoformat (commit_date c) = Inr d
               \<and> date_isoformat (date_of d) \<in> set (map fst (commits_per_day r)))"
proof -
  obtain res where res: "count_by_date fromisoformat commits [] = Inr res"
    and r: "r = \<lparr>commits_per_day = sort res, total_days_active = int (length res)\<rparr>"
    using assms by (auto simp add: calculate_daily_stats_def split: sum.splits)
  have ok0: "counters_ok []" by (simp add: counters_ok_def)
  have ok: "counters_ok res"
    and cnt: "\<forall>day. counter res day = commits_written_on fromisoformat commits day"
    using count_by_date_counts [OF res ok0] by (simp_all add: counter_def)
  have d: "distinct (map fst res)" using ok by (simp add: counters_ok_def)
  have s: "distinct (map fst (sort res))" and m: "map_of (sort res) = map_of res"
    using map_of_sort [OF d] by simp_all
  have look: "\<forall>day. map_of (commits_per_day r) day
                  = (if commits_written_on fromisoformat commits day = 0 then None
                     else Some (commits_written_on fromisoformat commits day))"
    using counters_ok_lookup [OF ok] cnt r m by simp
  have listed: "\<forall>c \<in> set commits. \<exists>d. fromisoformat (commit_date c) = Inr d
               \<and> date_isoformat (date_of d) \<in> set (map fst (commits_per_day r))"
  proof
    fix c assume c: "c \<in> set commits"
    have "\<exists>d. fromisoformat (commit_date c) = Inr d"
      using res c by (rule count_by_date_parses)
    then obtain d where d: "fromisoformat (commit_date c) = Inr d" by blast
    let ?k = "date_isoformat (date_of d)"
    have "written_day fromisoformat c = Some ?k" using d by (simp add: written_day_def)
    then have "c \<in> set (filter (\<lambda>c. written_day fromisoformat c = Some ?k) commits)"
      using c by simp
    then have "filter (\<lambda>c. written_day fromisoformat c = Some ?k) commits \<noteq> []"
      by (metis empty_iff list.set(1))
    then have "0 < commits_written_on fromisoformat commits ?k"
      by (simp add: commits_written_on_def)
    then have "map_of (commits_per_day r) ?k \<noteq> None" using look by simp
    then have "?k \<in> set (map fst (commits_per_day r))"
      by (simp add: map_of_eq_None_iff)
    then show "\<exists>d. fromisoformat (commit_date c) = Inr d
               \<and> date_isoformat (date_of d) \<in> set (map fst (commits_per_day r))"
      using d by blast
  qed
  show ?thesis
    using look listed s r sorted_keys [of res] by simp
qed

theorem C7_buckets_by_written_date_witness:
  "calculate_daily_stats fromisoformat_seconds [late_evening_commit, early_morning_commit]
     = Inr \<lparr>commits_per_day = [(''2024-01-01'', 1), (''2024-01-02'', 1)],
            total_days_active = 2\<rparr>
   \<and> commits_written_on fromisoformat_seconds [late_evening_commit, early_morning_commit]
       ''2024-01-01'' = 1
   \<and> map_of [(''2024-01-01'', 1 :: int), (''2024-01-02'', 1)] ''2024-01-01''
       = Some (commits_written_on fromisoformat_seconds
                 [late_evening_commit, early_morning_commit] ''2024-01-01'')"
proof -
  have w: "commits_written_on fromisoformat_seconds [late_evening_commit, early_morning_commit]
       ''2024-01-01'' = 1"
    by (simp add: commits_written_on_def written_day_def parse_late_evening parse_early_morning)
      code_simp
  have "map_of (commits_per_day \<lparr>commits_per_day = [(''2024-01-01'', 1), (''2024-01-02'', 1)],
            total_days_active = 2\<rparr>) ''2024-01-01''
       = (if commits_written_on fromisoformat_seconds
                 [late_evening_commit, early_morning_commit] ''2024-01-01'' = 0 then None
          else Some (commits_written_on fromisoformat_seconds
                 [late_evening_commit, early_morning_commit] ''2024-01-01''))"
    using C7_buckets_by_written_date [OF two_buckets] by blast
  then show ?thesis using w two_buckets by simp
qed

section \<open>Merged experience against the sum of the separate periods\<close>

subsection \<open>Measuring a period that starts on a month boundary\<close>

text \<open>
  A date read by \<open>strptime\<close> with \<open>%Y-%m\<close> is the first instant of its month. A period is
  well formed when it starts at such an instant and does not end before it starts; its
  end may be any datetime, as when the entry says \<open>present\<close>.
\<close>

definition is_month_start :: "naive_datetime \<Rightarrow> bool" where
  "is_month_start d \<longleftrightarrow> valid_datetime d \<and> dt_day d = 1 \<and> dt_time d = (0, 0, 0, 0)"

definition well_formed :: "period \<Rightarrow> bool" where
  "well_formed p \<longleftrightarrow> is_month_start (fst p) \<and> valid_datetime (snd p) \<and> fst p \<le> snd p"

definition month_start_of :: "naive_datetime \<Rightarrow> naive_datetime" where
  "month_start_of d = (dt_year d, dt_month d, 1, 0, 0, 0, 0)"

lemma valid_month_ok: "valid_datetime d \<Longrightarrow> month_ok d"
  by (cases d) (simp add: valid_datetime_def month_ok_def dt_month_def)

lemma month_start_le: "valid_datetime d \<Longrightarrow> month_start_of d \<le> d"
  by (cases d)
    (auto simp add: valid_datetime_def month_start_of_def dt_year_def dt_month_def)

lemma month_start_of_start: "is_month_start d \<Longrightarrow> month_start_of d = d"
  by (cases d)
    (auto simp add: is_month_start_def month_start_of_def dt_year_def dt_month_def dt_day_def
      dt_time_def)

lemma month_index_inject:
  assumes "month_ok a" "month_ok b" "month_index a = month_index b"
  shows "dt_year a = dt_year b \<and> dt_month a = dt_month b"
proof -
  have eq: "dt_year a * 12 + dt_month a = dt_year b * 12 + dt_month b"
    and r: "1 \<le> dt_month a" "dt_month a \<le> 12" "1 \<le> dt_month b" "dt_month b \<le> 12"
    using assms by (simp_all add: month_ok_def month_index_def)
  have "dt_year a = dt_year b" using eq r by arith
  then show ?thesis using eq by simp
qed

lemma days_in_month_ge: "28 \<le> days_in_month y m"
  by (simp add: days_in_month_def)

lemma radd_parts:
  "radd rd dt = (dt_year (radd rd dt), dt_month (radd rd dt),
                 min (days_in_month (dt_year (radd rd dt)) (dt_month (radd rd dt))) (dt_day dt),
                 dt_time dt)"
  by (simp add: radd_def Let_def dt_year_def dt_month_def split: if_splits)

text \<open>Adding the difference of the month fields to a month start gives a month start.\<close>

lemma radd_to_month_start:
  assumes "is_month_start s" and "month_ok e"
  shows "radd (set_months (month_index e - month_index s)) s = month_start_of e"
proof -
  let ?r = "radd (set_months (month_index e - month_index s)) s"
  have ok: "month_ok s" using assms(1) by (simp add: is_month_start_def valid_month_ok)
  have "month_ok ?r" using ok by (rule month_ok_radd)
  moreover have "month_index ?r = month_index e"
    using month_index_radd [of "set_months (month_index e - month_index s)" s]
      set_months_total [of "month_index e - month_index s"] by simp
  ultimately have ym: "dt_year ?r = dt_year e \<and> dt_month ?r = dt_month e"
    using assms(2) by (intro month_index_inject) simp_all
  have "?r = (dt_year e, dt_month e, min (days_in_month (dt_year e) (dt_month e)) 1, 0, 0, 0, 0)"
    using radd_parts [of "set_months (month_index e - month_index s)" s] ym assms(1)
    by (simp add: is_month_start_def)
  then show ?thesis
    using days_in_month_ge [of "dt_year e" "dt_month e"] by (simp add: month_start_of_def)
qed

lemma month_index_mono:
  assumes "month_ok a" "month_ok b" "a \<le> b"
  shows "month_index a \<le> month_index b"
  using assms less_month_index [of a b] by (cases "a = b") auto

text \<open>A datetime before a month start lies in an earlier month.\<close>

lemma before_month_start:
  assumes "is_month_start s" and "valid_datetime e" and "e < s"
  shows "month_index e < month_index s"
proof (rule ccontr)
  assume "\<not> month_index e < month_index s"
  moreover have "month_index e \<le> month_index s"
    using assms by (intro less_month_index) (simp_all add: is_month_start_def valid_month_ok)
  ultimately have "month_index e = month_index s" by simp
  then have "dt_year e = dt_year s \<and> dt_month e = dt_month s"
    using assms by (intro month_index_inject) (simp_all add: is_month_start_def valid_month_ok)
  then have "month_start_of e = month_start_of s" by (simp add: month_start_of_def)
  then have "s \<le> e"
    using month_start_le [OF assms(2)] month_start_of_start [OF assms(1)] by simp
  then show False using assms(3) by simp
qed

lemma start_le_iff:
  assumes "is_month_start s" and "valid_datetime e"
  shows "s \<le> e \<longleftrightarrow> month_index s \<le> month_index e"
proof
  assume "s \<le> e"
  then show "month_index s \<le> month_index e"
    using assms by (intro month_index_mono) (simp_all add: is_month_start_def valid_month_ok)
next
  assume a: "month_index s \<le> month_index e"
  show "s \<le> e"
  proof (rule ccontr)
    assume "\<not> s \<le> e"
    then have "e < s" by simp
    then have "month_index e < month_index s" using assms before_month_start by blast
    then show False using a by simp
  qed
qed

text \<open>
  From a month start to a later datetime, \<open>relativedelta\<close> counts the difference of the
  month fields: the loop of the library does not run.
\<close>

lemma period_months_forward:
  assumes "is_month_start s" and "valid_datetime e" and "s \<le> e"
  shows "period_months (s, e) = month_index e - month_index s"
proof -
  let ?m = "month_index e - month_index s"
  have m: "(dt_year e - dt_year s) * 12 + (dt_month e - dt_month s) = ?m"
    by (simp add: month_index_def algebra_simps)
  have "radd (set_months ?m) s = month_start_of e"
    using assms by (intro radd_to_month_start) (simp_all add: valid_month_ok)
  moreover have "\<not> e < month_start_of e"
    using month_start_le [OF assms(2)] by simp
  ultimately have "rd_adjust False e s ?m = ?m"
    by (subst rd_adjust.simps) (simp add: Let_def)
  moreover have "\<not> e < s" using assms(3) by simp
  ultimately have "relativedelta_between e s = set_months ?m"
    using m by (simp add: relativedelta_between_def Let_def del: rd_adjust.simps)
  then show ?thesis
    by (simp add: period_months_def Let_def set_months_total)
qed

lemma rd_adjust_up_bound:
  "rd_adjust True dt1 dt2 m \<le> max m (month_index dt1 - month_index dt2 + 1)"
proof (induction "True" dt1 dt2 m rule: rd_adjust.induct)
  case (1 dt1 dt2 m)
  let ?dtm = "radd (set_months m) dt2"
  show ?case
  proof (cases "month_ok dt1 \<and> month_ok dt2 \<and> ?dtm < dt1")
    case True
    then have "month_ok ?dtm" using month_ok_radd by blast
    then have "month_index ?dtm \<le> month_index dt1"
      using True less_month_index by blast
    then have le: "month_index dt2 + m \<le> month_index dt1"
      using month_index_radd [of "set_months m" dt2] set_months_total [of m] by simp
    have "rd_adjust True dt1 dt2 (m + 1) \<le> max (m + 1) (month_index dt1 - month_index dt2 + 1)"
      using "1.hyps" [of ?dtm] True by simp
    moreover have "rd_adjust True dt1 dt2 m = rd_adjust True dt1 dt2 (m + 1)"
      using True by (subst rd_adjust.simps) (simp add: Let_def)
    ultimately show ?thesis using le by simp
  next
    case False
    have "rd_adjust True dt1 dt2 m =
        (if month_ok dt1 \<and> month_ok dt2 \<and> ?dtm < dt1 then rd_adjust True dt1 dt2 (m + 1) else m)"
      by (subst rd_adjust.simps) (simp add: Let_def del: rd_adjust.simps)
    then have "rd_adjust True dt1 dt2 m = m"
      by (simp only: False if_False)
    then show ?thesis by simp
  qed
qed

text \<open>A period that ends before its month start begins has no positive length.\<close>

lemma period_months_backward:
  assumes "is_month_start s" and "valid_datetime e" and "e < s"
  shows "period_months (s, e) \<le> 0"
proof -
  let ?m = "month_index e - month_index s"
  have m: "(dt_year e - dt_year s) * 12 + (dt_month e - dt_month s) = ?m"
    by (simp add: month_index_def algebra_simps)
  have "?m < 0" using before_month_start [OF assms] by simp
  moreover have "rd_adjust True e s ?m \<le> max ?m (?m + 1)"
    using rd_adjust_up_bound [of e s ?m] by (simp del: rd_adjust.simps)
  ultimately have "rd_adjust True e s ?m \<le> 0" by (simp del: rd_adjust.simps)
  moreover have "relativedelta_between e s = set_months (rd_adjust True e s ?m)"
    using m assms(3) by (simp add: relativedelta_between_def Let_def del: rd_adjust.simps)
  ultimately show ?thesis
    by (simp add: period_months_def Let_def set_months_total del: rd_adjust.simps)
qed

subsection \<open>Periods as ranges of months\<close>

abbreviation first_month :: "period \<Rightarrow> int" where
  "first_month p \<equiv> month_index (fst p)"

abbreviation last_month :: "period \<Rightarrow> int" where
  "last_month p \<equiv> month_index (snd p)"

text \<open>
  The months two periods have in common, measured as the source measures a period:
  from the later start to the earlier end. Two periods overlap when this is at least
  one month.
\<close>

definition shared_months :: "period \<Rightarrow> period \<Rightarrow> int" where
  "shared_months p q = period_months (max (fst p) (fst q), min (snd p) (snd q))"

definition overlap :: "period \<Rightarrow> period \<Rightarrow> bool" where
  "overlap p q \<longleftrightarrow> 0 < shared_months p q"

fun no_two_overlap :: "period list \<Rightarrow> bool" where
  "no_two_overlap [] = True"
| "no_two_overlap (p # ps) = ((\<forall>q \<in> set ps. \<not> overlap p q) \<and> no_two_overlap ps)"

lemma well_formed_parts:
  assumes "well_formed p"
  shows "is_month_start (fst p)" and "valid_datetime (fst p)" and "valid_datetime (snd p)"
    and "fst p \<le> snd p"
  using assms by (simp_all add: well_formed_def is_month_start_def)

lemma period_months_span:
  "well_formed p \<Longrightarrow> period_months p = last_month p - first_month p"
  using period_months_forward [of "fst p" "snd p"] by (simp add: well_formed_def)

lemma span_ordered: "well_formed p \<Longrightarrow> first_month p \<le> last_month p"
  using start_le_iff [of "fst p" "snd p"] by (simp add: well_formed_def)

lemma start_end_iff:
  "well_formed p \<Longrightarrow> well_formed q \<Longrightarrow> fst q \<le> snd p \<longleftrightarrow> first_month q \<le> last_month p"
  using start_le_iff [of "fst q" "snd p"] by (simp add: well_formed_def)

lemma start_start_iff:
  "well_formed p \<Longrightarrow> well_formed q \<Longrightarrow> fst p \<le> fst q \<longleftrightarrow> first_month p \<le> first_month q"
  using start_le_iff [of "fst p" "fst q"] by (simp add: well_formed_def is_month_start_def)

lemma month_index_max:
  assumes "valid_datetime a" and "valid_datetime b"
  shows "month_index (max a b) = max (month_index a) (month_index b)"
proof (cases "a \<le> b")
  case True
  then have "month_index a \<le> month_index b"
    using assms by (intro month_index_mono) (simp_all add: valid_month_ok)
  then show ?thesis using True by (simp add: max_def)
next
  case False
  then have "b \<le> a" by simp
  then have "month_index b \<le> month_index a"
    using assms by (intro month_index_mono) (simp_all add: valid_month_ok)
  then show ?thesis using False by (simp add: max_def)
qed

lemma month_index_min:
  assumes "valid_datetime a" and "valid_datetime b"
  shows "month_index (min a b) = min (month_index a) (month_index b)"
proof (cases "a \<le> b")
  case True
  then have "month_index a \<le> month_index b"
    using assms by (intro month_index_mono) (simp_all add: valid_month_ok)
  then show ?thesis using True by (simp add: min_def)
next
  case False
  then have "b \<le> a" by simp
  then have "month_index b \<le> month_index a"
    using assms by (intro month_index_mono) (simp_all add: valid_month_ok)
  then show ?thesis using False by (simp add: min_def)
qed

text \<open>Two well-formed periods overlap when the later first month is before the earlier last month.\<close>

lemma overlap_iff:
  assumes "well_formed p" and "well_formed q"
  shows "overlap p q \<longleftrightarrow>
         max (first_month p) (first_month q) < min (last_month p) (last_month q)"
proof -
  let ?s = "max (fst p) (fst q)" and ?e = "min (snd p) (snd q)"
  have s: "is_month_start ?s"
    using well_formed_parts(1) [OF assms(1)] well_formed_parts(1) [OF assms(2)]
    by (simp add: max_def)
  have e: "valid_datetime ?e"
    using well_formed_parts(3) [OF assms(1)] well_formed_parts(3) [OF assms(2)]
    by (simp add: min_def)
  have ms: "month_index ?s = max (first_month p) (first_month q)"
    using well_formed_parts(2) [OF assms(1)] well_formed_parts(2) [OF assms(2)]
    by (rule month_index_max)
  have me: "month_index ?e = min (last_month p) (last_month q)"
    using well_formed_parts(3) [OF assms(1)] well_formed_parts(3) [OF assms(2)]
    by (rule month_index_min)
  show ?thesis
  proof (cases "?s \<le> ?e")
    case True
    then have "period_months (?s, ?e) = month_index ?e - month_index ?s"
      using s e by (intro period_months_forward)
    then show ?thesis
      unfolding overlap_def shared_months_def ms me by simp
  next
    case False
    then have lt: "?e < ?s" by (simp only: not_le)
    have n1: "\<not> 0 < period_months (?s, ?e)"
      using period_months_backward [OF s e lt] by simp
    have "month_index ?e < month_index ?s"
      using s e lt by (rule before_month_start)
    then have n2: "\<not> max (first_month p) (first_month q) < min (last_month p) (last_month q)"
      unfolding ms me by (rule less_not_sym)
    show ?thesis
      unfolding overlap_def shared_months_def using n1 n2 by blast
  qed
qed

lemma overlap_sym: "overlap p q \<longleftrightarrow> overlap q p"
  by (simp add: overlap_def shared_months_def max.commute min.commute)

subsection \<open>One round of the merge loop\<close>

text \<open>What the loop puts in \<open>merged[-1]\<close> when the current period starts in time.\<close>

lemma merged_pair_well_formed:
  assumes "well_formed p" and "well_formed q"
  shows "well_formed (fst p, max (snd p) (snd q))"
    and "last_month (fst p, max (snd p) (snd q)) = max (last_month p) (last_month q)"
proof -
  have "valid_datetime (max (snd p) (snd q))"
    using well_formed_parts(3) [OF assms(1)] well_formed_parts(3) [OF assms(2)]
    by (simp add: max_def)
  moreover have "fst p \<le> max (snd p) (snd q)"
    using well_formed_parts(4) [OF assms(1)] by (simp add: le_max_iff_disj)
  ultimately show "well_formed (fst p, max (snd p) (snd q))"
    using well_formed_parts(1) [OF assms(1)] by (simp add: well_formed_def)
  show "last_month (fst p, max (snd p) (snd q)) = max (last_month p) (last_month q)"
    using well_formed_parts(3) [OF assms(1)] well_formed_parts(3) [OF assms(2)]
    by (simp add: month_index_max)
qed

lemma merged_pair_months:
  assumes "well_formed p" and "well_formed q" and "fst p \<le> fst q" and "fst q \<le> snd p"
  shows "period_months (fst p, max (snd p) (snd q)) \<le> period_months p + period_months q"
    and "period_months (fst p, max (snd p) (snd q)) = period_months p + period_months q
         \<longleftrightarrow> \<not> overlap p q"
proof -
  let ?m = "(fst p, max (snd p) (snd q))"
  have pm: "period_months ?m = max (last_month p) (last_month q) - first_month p"
    using merged_pair_well_formed [OF assms(1,2)] period_months_span [of ?m] by simp
  have a: "first_month p \<le> first_month q"
    using assms(3) start_start_iff [OF assms(1,2)] by simp
  have b: "first_month q \<le> last_month p"
    using assms(4) start_end_iff [OF assms(1,2)] by simp
  have c: "first_month q \<le> last_month q"
    using assms(2) by (rule span_ordered)
  show "period_months ?m \<le> period_months p + period_months q"
    unfolding pm period_months_span [OF assms(1)] period_months_span [OF assms(2)]
    using a b c by arith
  show "period_months ?m = period_months p + period_months q \<longleftrightarrow> \<not> overlap p q"
    unfolding pm period_months_span [OF assms(1)] period_months_span [OF assms(2)]
      overlap_iff [OF assms(1,2)]
    using a b c by arith
qed

text \<open>A later period overlaps the extended period when it overlaps one of the two.\<close>

lemma merged_pair_overlap:
  assumes "well_formed p" and "well_formed q" and "well_formed r"
    and "fst p \<le> fst q" and "fst q \<le> snd p" and "fst q \<le> fst r"
  shows "overlap (fst p, max (snd p) (snd q)) r \<longleftrightarrow> overlap p r \<or> overlap q r"
proof -
  let ?m = "(fst p, max (snd p) (snd q))"
  have wf: "well_formed ?m" and l: "last_month ?m = max (last_month p) (last_month q)"
    using merged_pair_well_formed [OF assms(1,2)] by simp_all
  have f: "first_month ?m = first_month p" by simp
  have a: "first_month p \<le> first_month q"
    using assms(4) start_start_iff [OF assms(1,2)] by simp
  have b: "first_month q \<le> first_month r"
    using assms(6) start_start_iff [OF assms(2,3)] by simp
  show ?thesis
    unfolding overlap_iff [OF wf assms(3)] overlap_iff [OF assms(1,3)]
      overlap_iff [OF assms(2,3)] l f
    using a b by arith
qed

text \<open>A period that ended before the current one starts overlaps nothing that starts later.\<close>

lemma apart_no_overlap:
  assumes "well_formed p" and "well_formed q" and "well_formed r"
    and "\<not> fst q \<le> snd p" and "fst q \<le> fst r"
  shows "\<not> overlap p r"
proof -
  have a: "last_month p < first_month q"
    using assms(4) start_end_iff [OF assms(1,2)] by simp
  have b: "first_month q \<le> first_month r"
    using assms(5) start_start_iff [OF assms(2,3)] by simp
  show ?thesis
    unfolding overlap_iff [OF assms(1,3)] using a b by arith
qed

subsection \<open>The merge loop over periods sorted by their start\<close>

text \<open>
  The loop, seen from the period it is extending: \<open>cur\<close> is \<open>merged[-1]\<close>, and the
  periods before it in \<open>merged\<close> are not touched again.
\<close>

fun merge_from :: "period \<Rightarrow> period list \<Rightarrow> period list" where
  "merge_from cur [] = [cur]"
| "merge_from cur (q # rest) =
     (if fst q \<le> snd cur then merge_from (fst cur, max (snd cur) (snd q)) rest
      else cur # merge_from q rest)"

lemma merge_loop: "foldl merge_step (pre @ [cur]) rest = pre @ merge_from cur rest"
proof (induction rest arbitrary: pre cur)
  case Nil
  show ?case by simp
next
  case (Cons q rest)
  obtain s e where cur: "cur = (s, e)" by (cases cur)
  obtain s' e' where q: "q = (s', e')" by (cases q)
  show ?case
  proof (cases "s' \<le> e")
    case True
    then have "merge_step (pre @ [cur]) q = pre @ [(s, max e e')]"
      by (simp add: merge_step_def cur q)
    then show ?thesis
      using Cons.IH [of pre "(s, max e e')"] True by (simp add: cur q)
  next
    case False
    then have "merge_step (pre @ [cur]) q = (pre @ [cur]) @ [q]"
      by (simp add: merge_step_def cur q)
    then show ?thesis
      using Cons.IH [of "pre @ [cur]" q] False by (simp add: cur q)
  qed
qed

text \<open>
  The invariant of the loop: the months of the merged periods never exceed the months of
  the periods taken one by one, and reach them only when no two periods overlap.
\<close>

lemma merge_from_months:
  assumes "well_formed cur"
    and "\<forall>q \<in> set rest. well_formed q \<and> fst cur \<le> fst q"
    and "sorted (map fst rest)"
  shows "sum_list (map period_months (merge_from cur rest))
           \<le> period_months cur + sum_list (map period_months rest)
         \<and> (sum_list (map period_months (merge_from cur rest))
              = period_months cur + sum_list (map period_months rest)
            \<longleftrightarrow> no_two_overlap (cur # rest))"
  using assms
proof (induction rest arbitrary: cur)
  case Nil
  show ?case by simp
next
  case (Cons q rest)
  have wc: "well_formed cur" by (rule Cons.prems(1))
  have wq: "well_formed q" and cq: "fst cur \<le> fst q"
    using Cons.prems(2) by simp_all
  have wr: "\<forall>r \<in> set rest. well_formed r" using Cons.prems(2) by simp
  have qr: "\<forall>r \<in> set rest. fst q \<le> fst r" using Cons.prems(3) by simp
  have sr: "sorted (map fst rest)" using Cons.prems(3) by simp
  let ?rest = "sum_list (map period_months rest)"
  show ?case
  proof (cases "fst q \<le> snd cur")
    case True
    let ?m = "(fst cur, max (snd cur) (snd q))"
    let ?total = "sum_list (map period_months (merge_from ?m rest))"
    have wm: "well_formed ?m" using wc wq by (rule merged_pair_well_formed(1))
    have "\<forall>r \<in> set rest. well_formed r \<and> fst ?m \<le> fst r"
      using wr qr cq by auto
    then have ih: "?total \<le> period_months ?m + ?rest
        \<and> (?total = period_months ?m + ?rest \<longleftrightarrow> no_two_overlap (?m # rest))"
      using Cons.IH [OF wm _ sr] by blast
    have le: "period_months ?m \<le> period_months cur + period_months q"
      and eq: "period_months ?m = period_months cur + period_months q \<longleftrightarrow> \<not> overlap cur q"
      using merged_pair_months [OF wc wq cq True] by blast+
    have ov: "\<forall>r \<in> set rest. overlap ?m r \<longleftrightarrow> overlap cur r \<or> overlap q r"
      using merged_pair_overlap [OF wc wq _ cq True] wr qr by blast
    have a: "?total \<le> period_months cur + (period_months q + ?rest)"
      using ih le by simp
    have "?total = period_months cur + (period_months q + ?rest)
        \<longleftrightarrow> ?total = period_months ?m + ?rest
            \<and> period_months ?m = period_months cur + period_months q"
      using ih le by auto
    also have "\<dots> \<longleftrightarrow> no_two_overlap (?m # rest) \<and> \<not> overlap cur q"
      using ih eq by blast
    also have "\<dots> \<longleftrightarrow> no_two_overlap (cur # q # rest)"
      using ov by auto
    finally have b: "?total = period_months cur + (period_months q + ?rest)
        \<longleftrightarrow> no_two_overlap (cur # q # rest)" .
    have m: "merge_from cur (q # rest) = merge_from ?m rest"
      using True by simp
    have s: "sum_list (map period_months (q # rest)) = period_months q + ?rest"
      by simp
    show ?thesis
      unfolding m s using a b by (rule conjI)
  next
    case False
    have "\<forall>r \<in> set rest. well_formed r \<and> fst q \<le> fst r"
      using wr qr by simp
    then have ih: "sum_list (map period_months (merge_from q rest)) \<le> period_months q + ?rest
        \<and> (sum_list (map period_months (merge_from q rest)) = period_months q + ?rest
            \<longleftrightarrow> no_two_overlap (q # rest))"
      using Cons.IH [OF wq _ sr] by blast
    have "\<not> overlap cur q"
      using apart_no_overlap [OF wc wq wq False] by simp
    moreover have "\<forall>r \<in> set rest. \<not> overlap cur r"
      using apart_no_overlap [OF wc wq _ False] wr qr by blast
    ultimately have n: "no_two_overlap (cur # q # rest) \<longleftrightarrow> no_two_overlap (q # rest)"
      by simp
    have m: "sum_list (map period_months (merge_from cur (q # rest)))
               = period_months cur + sum_list (map period_months (merge_from q rest))"
      using False by simp
    have s: "sum_list (map period_months (q # rest)) = period_months q + ?rest"
      by simp
    show ?thesis
      unfolding m s n using ih by simp
  qed
qed

subsection \<open>Sorting changes neither the sum nor the overlaps\<close>

lemma sum_insort_key:
  "sum_list (map f (insort_key k x xs)) = (f x :: int) + sum_list (map f xs)"
  by (induction xs) simp_all

lemma sum_sort_key: "sum_list (map f (sort_key k xs)) = (sum_list (map f xs) :: int)"
  by (induction xs) (simp_all add: sum_insort_key)

lemma no_two_overlap_insort:
  "no_two_overlap (insort_key k x xs) \<longleftrightarrow> no_two_overlap (x # xs)"
proof (induction xs)
  case Nil
  show ?case by simp
next
  case (Cons y ys)
  show ?case
  proof (cases "k x \<le> k y")
    case True
    then show ?thesis by simp
  next
    case False
    then have "no_two_overlap (insort_key k x (y # ys))
        \<longleftrightarrow> (\<forall>q \<in> set (insort_key k x ys). \<not> overlap y q) \<and> no_two_overlap (x # ys)"
      using Cons.IH by simp
    also have "\<dots> \<longleftrightarrow> no_two_overlap (x # y # ys)"
      using overlap_sym [of x y] by (auto simp add: set_insort_key)
    finally show ?thesis .
  qed
qed

lemma no_two_overlap_sort: "no_two_overlap (sort_key k xs) \<longleftrightarrow> no_two_overlap xs"
  by (induction xs) (simp_all add: no_two_overlap_insort)

lemma total_months_sorted:
  assumes "sort_key fst periods = first # rest"
  shows "total_months periods = sum_list (map period_months (merge_from first rest))"
  using assms merge_loop [of "[]" first rest] by (simp add: total_months_def merge_periods_def)

subsection \<open>Merged total and naive sum\<close>

text \<open>Two periods share time when the later start is before the earlier end.\<close>

definition share_time :: "period \<Rightarrow> period \<Rightarrow> bool" where
  "share_time p q \<longleftrightarrow> max (fst p) (fst q) < min (snd p) (snd q)"

definition long_job :: career_entry where
  "long_job = \<lparr>entry_type = Some ''work'', date_start = Some ''2020-01'', date_end = None\<rparr>"

definition new_job :: career_entry where
  "new_job =
     \<lparr>entry_type = Some ''work'', date_start = Some ''2024-03'', date_end = Some ''present''\<rparr>"

definition mid_march :: clock where
  "mid_march n = (2024, 3, 15, 10, 30, 0, 0)"

definition long_period :: period where
  "long_period = ((2020, 1, 1, 0, 0, 0, 0), (2024, 3, 15, 10, 30, 0, 0))"

definition new_period :: period where
  "new_period = ((2024, 3, 1, 0, 0, 0, 0), (2024, 3, 15, 10, 30, 0, 0))"

text \<open>
  C2, as stated, fails in its equality part. A job held since 2020-01 and a second job
  started on 2024-03-01, both still held on 2024-03-15 at 10:30, overlap for two weeks:
  the loop merges them into one period. The merged total is 50 months, and so is the
  naive sum, since \<open>relativedelta\<close> counts whole months and the second job has none yet.
\<close>

theorem C2_overlap_with_equal_totals:
  "collect_periods mid_march 0 [long_job, new_job] = Inr [long_period, new_period]
   \<and> share_time long_period new_period
   \<and> merge_periods [long_period, new_period] = [long_period]
   \<and> total_months [long_period, new_period] = 50
   \<and> naive_months [long_period, new_period] = 50
   \<and> calculate_total_experience mid_march [long_job, new_job] = Inr ''4y 2m''"
  by code_simp

text \<open>
  The inequality needs periods that do not end before they start: for a job from 2020-01
  to 2020-12 and an entry from 2020-06 to 2020-03, the merged total is 11 months and the
  naive sum is 8, the second entry counting for -3.
\<close>

definition year_2020 :: period where
  "year_2020 = ((2020, 1, 1, 0, 0, 0, 0), (2020, 12, 1, 0, 0, 0, 0))"

definition ends_before_start :: period where
  "ends_before_start = ((2020, 6, 1, 0, 0, 0, 0), (2020, 3, 1, 0, 0, 0, 0))"

lemma ends_before_start_total:
  "total_months [year_2020, ends_before_start] = 11
   \<and> naive_months [year_2020, ends_before_start] = 8
   \<and> \<not> well_formed ends_before_start"
  by code_simp

text \<open>
  It also needs starts on a month boundary, which only a start that says \<open>present\<close> lacks:
  for a job from 2024-03 that is still held on 2024-03-15 at 10:31 and an entry that
  starts at 10:30 of that day and ends 2025-06, the merged total is 15 months and the
  naive sum is 14.
\<close>

definition held_since_march :: period where
  "held_since_march = ((2024, 3, 1, 0, 0, 0, 0), (2024, 3, 15, 10, 31, 0, 0))"

definition starts_mid_month :: period where
  "starts_mid_month = ((2024, 3, 15, 10, 30, 0, 0), (2025, 6, 1, 0, 0, 0, 0))"

lemma starts_mid_month_total:
  "total_months [held_since_march, starts_mid_month] = 15
   \<and> naive_months [held_since_march, starts_mid_month] = 14
   \<and> \<not> well_formed starts_mid_month"
  by code_simp

text \<open>
  C2, amended: for every list of periods that start at the first instant of a month and
  do not end before they start, the total months of the merged periods is at most the
  sum of the months of each period taken separately, with equality if and only if no
  two periods of the list have a whole month in common (the months from the later start
  to the earlier end, counted as the source counts a period, are 0 or less).
\<close>

theorem C2_merged_total_at_most_naive:
  assumes "\<forall>p \<in> set periods. well_formed p"
  shows "total_months periods \<le> naive_months periods
         \<and> (total_months periods = naive_months periods \<longleftrightarrow> no_two_overlap periods)"
proof (cases "sort_key fst periods")
  case Nil
  then have "length periods = 0"
    using length_sort [of fst periods] by simp
  then show ?thesis
    by (simp add: total_months_def merge_periods_def naive_months_def)
next
  case (Cons first rest)
  have members: "set (first # rest) = set periods"
    using Cons set_sort [of fst periods] by simp
  have ordered: "sorted (map fst (first # rest))"
    using Cons sorted_sort_key [of fst periods] by simp
  have wf: "well_formed first"
    using assms members by auto
  have later: "\<forall>q \<in> set rest. well_formed q \<and> fst first \<le> fst q"
    using assms members ordered by auto
  have sr: "sorted (map fst rest)"
    using ordered by simp
  have n: "naive_months periods = period_months first + sum_list (map period_months rest)"
    using Cons sum_sort_key [of period_months fst periods] by (simp add: naive_months_def)
  have o: "no_two_overlap periods \<longleftrightarrow> no_two_overlap (first # rest)"
    using Cons no_two_overlap_sort [of fst periods] by simp
  show ?thesis
    unfolding total_months_sorted [OF Cons] n o
    using wf later sr by (rule merge_from_months)
qed

theorem C2_merged_total_at_most_naive_witness:
  "well_formed period_a \<and> well_formed period_b
   \<and> total_months [period_a, period_b] = 29
   \<and> naive_months [period_a, period_b] = 35
   \<and> total_months [period_a, period_b] \<le> naive_months [period_a, period_b]
   \<and> \<not> no_two_overlap [period_a, period_b]"
proof -
  have a: "well_formed period_a" by code_simp
  have b: "well_formed period_b" by code_simp
  have n: "naive_months [period_a, period_b] = 35"
    using naive_two_jobs by simp
  have "\<forall>p \<in> set [period_a, period_b]. well_formed p"
    using a b by simp
  then have "total_months [period_a, period_b] \<le> naive_months [period_a, period_b]
      \<and> (total_months [period_a, period_b] = naive_months [period_a, period_b]
          \<longleftrightarrow> no_two_overlap [period_a, period_b])"
    by (rule C2_merged_total_at_most_naive)
  then have "total_months [period_a, period_b] \<le> naive_months [period_a, period_b]"
    and "\<not> no_two_overlap [period_a, period_b]"
    unfolding total_two_jobs n by simp_all
  then show ?thesis
    using a b total_two_jobs n by blast
qed

section \<open>Activity calendar: the SVG of the last 30 days\<close>

subsection \<open>The days before today\<close>











subsection \<open>The data of the 30 cells\<close>








subsection \<open>Texts computed with floating-point numbers\<close>



subsection \<open>The theme\<close>


subsection \<open>The parts of the SVG\<close>


























subsection \<open>The calendar\<close>


subsection \<open>A theme and the float texts, to run the calendar\<close>



section \<open>The calendar and the day it is drawn on\<close>

subsection \<open>The text of the calendar, part by part\<close>




subsection \<open>A calendar without commits\<close>







subsection \<open>Two calls, one day apart\<close>

definition last_of_january :: naive_datetime where
  "last_of_january = (2024, 1, 31, 9, 15, 0, 0)"

definition first_of_february :: naive_datetime where
  "first_of_february = (2024, 2, 1, 9, 15, 0, 0)"





text \<open>
  The career timeline has the same dependence: it writes the text of
  \<open>_calculate_total_experience\<close> into its SVG, and for a job that is still held this
  text is computed from \<open>datetime.now()\<close>.
\<close>

lemma total_experience_changes_overnight:
  "calculate_total_experience (\<lambda>n. last_of_january) [long_job] = Inr ''4y''
   \<and> calculate_total_experience (\<lambda>n. first_of_february) [long_job] = Inr ''4y 1m''"
  by code_simp

subsection \<open>Two calls on the same day\<close>





















end
